theory Spec2Isabelle
  imports Main "HOL-Library.Word"
begin

unbundle bit_operations_syntax

chapter \<open>The enrichment engine of \<^verbatim>\<open>src/lib/utils/enricher.ts\<close>\<close>

text \<open>
  The module classifies raw token-program accounts, formats token amounts, asks a metadata
  service for the mints it found, builds a map from address to annotation
  (\<^verbatim>\<open>fetchEnrichmentMap\<close>), and rewrites a decoded value tree with that map
  (\<^verbatim>\<open>injectEnrichment\<close>) or back (\<^verbatim>\<open>stripEnrichment\<close>).

  Conventions of the embedding.
  \<^item> A JavaScript string is a \<^typ>\<open>string\<close>, one \<^typ>\<open>char\<close> per code unit; only code units
    below 256 are representable.
  \<^item> A JavaScript object is its prototype and the list of its own enumerable properties in
    enumeration order (array indices first, ascending, then the other keys as they were
    created); the keys of one object are distinct.
  \<^item> Every \<^verbatim>\<open>await\<close>ed external call is a function of the requests issued so far and of the
    request itself; a call that throws is one of the values it may return.
\<close>

section \<open>Bytes: base64, base58, little-endian integers\<close>

type_synonym byte = "8 word"

text \<open>
  \<^verbatim>\<open>atob\<close> is the platform's decoder, not code of the repository. The model is the
  forgiving-base64 decode it is specified by: ASCII whitespace is dropped; one or two
  trailing \<^verbatim>\<open>=\<close> are dropped when the length is a multiple of 4; a length of 1 modulo 4 or a
  character outside the alphabet is a failure (\<^verbatim>\<open>atob\<close> throws; here \<open>None\<close>); the
  characters are read 6 bits at a time and the incomplete last byte is discarded.
\<close>

definition b64_alphabet :: string where
  "b64_alphabet = ''ABCDEFGHIJKLMNOPQRSTUVWXYZabcdefghijklmnopqrstuvwxyz0123456789+/''"

definition is_ascii_whitespace :: "char \<Rightarrow> bool" where
  "is_ascii_whitespace c = (c \<in> set [CHR 0x09, CHR 0x0A, CHR 0x0C, CHR 0x0D, CHR 0x20])"

fun index_of :: "'a \<Rightarrow> 'a list \<Rightarrow> nat option" where
  "index_of x [] = None"
| "index_of x (y # ys) = (if x = y then Some 0 else map_option Suc (index_of x ys))"

definition strip_padding :: "string \<Rightarrow> string" where
  "strip_padding s =
     (if length s mod 4 = 0 \<and> s \<noteq> [] \<and> last s = CHR ''=''
      then (if butlast s \<noteq> [] \<and> last (butlast s) = CHR ''='' then butlast (butlast s) else butlast s)
      else s)"

fun sextets :: "string \<Rightarrow> nat list option" where
  "sextets [] = Some []"
| "sextets (c # cs) =
     (case index_of c b64_alphabet of
        None \<Rightarrow> None
      | Some v \<Rightarrow> map_option ((#) v) (sextets cs))"

fun decode_groups :: "nat list \<Rightarrow> byte list" where
  "decode_groups (a # b # c # d # rest) =
     (let n = a * 262144 + b * 4096 + c * 64 + d
      in [of_nat (n div 65536), of_nat (n div 256 mod 256), of_nat (n mod 256)] @ decode_groups rest)"
| "decode_groups [a, b, c] =
     (let n = (a * 4096 + b * 64 + c) div 4
      in [of_nat (n div 256), of_nat (n mod 256)])"
| "decode_groups [a, b] = [of_nat ((a * 64 + b) div 16)]"
| "decode_groups [a] = []"
| "decode_groups [] = []"

definition atob :: "string \<Rightarrow> byte list option" where
  "atob s =
     (let d = strip_padding (filter (\<lambda>c. \<not> is_ascii_whitespace c) s)
      in if length d mod 4 = 1 then None
         else map_option decode_groups (sextets d))"

text \<open>\<^verbatim>\<open>base64ToBytes\<close>: the \<^verbatim>\<open>catch\<close> logs and returns an empty array.\<close>

definition base64ToBytes :: "string \<Rightarrow> byte list" where
  "base64ToBytes base64 = (case atob base64 of Some bytes \<Rightarrow> bytes | None \<Rightarrow> [])"

text \<open>
  \<^verbatim>\<open>utils.bytes.bs58.encode\<close> is a library function. The model is base-58 in the Bitcoin
  alphabet: one \<^verbatim>\<open>1\<close> for each leading zero byte, then the digits of the big-endian number.
\<close>

definition b58_alphabet :: string where
  "b58_alphabet = ''123456789ABCDEFGHJKLMNPQRSTUVWXYZabcdefghijkmnopqrstuvwxyz''"

definition be_nat :: "byte list \<Rightarrow> nat" where
  "be_nat bs = foldl (\<lambda>acc b. 256 * acc + unat b) 0 bs"

function b58_digits :: "nat \<Rightarrow> string" where
  "b58_digits n = (if n = 0 then [] else b58_digits (n div 58) @ [b58_alphabet ! (n mod 58)])"
  by pat_completeness auto
termination
  by (relation "measure id") auto

declare b58_digits.simps [simp del]

definition bs58_encode :: "byte list \<Rightarrow> string" where
  "bs58_encode bs = replicate (length (takeWhile (\<lambda>b. b = 0) bs)) CHR ''1'' @ b58_digits (be_nat bs)"

text \<open>\<^verbatim>\<open>new BN(bytes, "le")\<close>: an unbounded integer from little-endian bytes.\<close>

definition bn_le :: "byte list \<Rightarrow> nat" where
  "bn_le bs = foldr (\<lambda>b acc. unat b + 256 * acc) bs 0"

section \<open>Classifying an account\<close>

definition TOKEN_PROGRAM_ID :: string where
  "TOKEN_PROGRAM_ID = ''TokenkegQfeZyiNwAJbNbGKPFXCWuBvf9Ss623VQ5DA''"

definition TOKEN_2022_PROGRAM_ID :: string where
  "TOKEN_2022_PROGRAM_ID = ''TokenzQdBNbLqP5VEhdkAS6EPFLC1PHnBqCXEpPxuEb''"

definition SUPABASE_TOKEN_ICON_URL :: string where
  "SUPABASE_TOKEN_ICON_URL =
     ''https://xcdlwgvabmruuularsvn.supabase.co/storage/v1/object/public/p0-tokens''"

datatype account_kind = TokenHolding | MintRecord | Unclassified

text \<open>
  \<^verbatim>\<open>dataBuf[0] | (dataBuf[1] << 8) | (dataBuf[2] << 16) | (dataBuf[3] << 24)\<close>: the
  operands are converted to 32-bit integers and the result is a signed 32-bit integer.
\<close>

definition read_opt :: "byte list \<Rightarrow> int" where
  "read_opt dataBuf =
     sint ((ucast (dataBuf ! 0) :: 32 word)
           OR push_bit 8 (ucast (dataBuf ! 1))
           OR push_bit 16 (ucast (dataBuf ! 2))
           OR push_bit 24 (ucast (dataBuf ! 3)))"

text \<open>
  The flags \<^verbatim>\<open>isTokenAccount\<close> and \<^verbatim>\<open>isMint\<close> of the loop body, as one value. The
  buffer is read at 0..3 only where it is longer than 165 bytes.
\<close>

definition classify :: "string \<Rightarrow> byte list \<Rightarrow> account_kind" where
  "classify owner dataBuf =
     (if owner = TOKEN_PROGRAM_ID \<or> owner = TOKEN_2022_PROGRAM_ID then
        (let len = length dataBuf in
         if len = 165 then TokenHolding
         else if len = 82 then MintRecord
         else if owner = TOKEN_2022_PROGRAM_ID then
           (if len \<ge> 82 \<and> len < 165 then MintRecord
            else if len > 165 then
              (let opt = read_opt dataBuf;
                   isMintOption = ((opt = 0 \<or> opt = 1)
                      \<and> dataBuf ! 1 = 0 \<and> dataBuf ! 2 = 0 \<and> dataBuf ! 3 = 0)
               in if isMintOption then MintRecord else TokenHolding)
            else Unclassified)
         else Unclassified)
      else Unclassified)"

text \<open>
  The fields read from a holding record: \<^verbatim>\<open>subarray(0, 32)\<close> and
  \<^verbatim>\<open>subarray(64, 72)\<close> clamp to the buffer, as \<open>take\<close> and \<open>drop\<close> do.
\<close>

definition token_mint :: "byte list \<Rightarrow> string" where
  "token_mint dataBuf = bs58_encode (take 32 dataBuf)"

definition token_amount :: "byte list \<Rightarrow> nat" where
  "token_amount dataBuf = bn_le (take 8 (drop 64 dataBuf))"

subsection \<open>The decision table, as the specification words it\<close>

definition le_u32 :: "byte list \<Rightarrow> nat" where
  "le_u32 b = unat (b ! 0) + 2 ^ 8 * unat (b ! 1) + 2 ^ 16 * unat (b ! 2) + 2 ^ 24 * unat (b ! 3)"

definition decision_table :: "string \<Rightarrow> byte list \<Rightarrow> account_kind" where
  "decision_table owner b =
     (if owner \<noteq> TOKEN_PROGRAM_ID \<and> owner \<noteq> TOKEN_2022_PROGRAM_ID then Unclassified
      else if length b = 165 then TokenHolding
      else if length b = 82 then MintRecord
      else if owner = TOKEN_PROGRAM_ID then Unclassified
      else if length b < 82 then Unclassified
      else if length b < 165 then MintRecord
      else if (le_u32 b = 0 \<or> le_u32 b = 1) \<and> b ! 1 = 0 \<and> b ! 2 = 0 \<and> b ! 3 = 0 then MintRecord
      else TokenHolding)"

section \<open>Formatting an amount\<close>

text \<open>\<^verbatim>\<open>BN.prototype.toString()\<close>: the decimal digits, with no leading zero.\<close>

definition digit_char :: "nat \<Rightarrow> char" where
  "digit_char d = ''0123456789'' ! d"

function toString :: "nat \<Rightarrow> string" where
  "toString n = (if n < 10 then [digit_char n] else toString (n div 10) @ [digit_char (n mod 10)])"
  by pat_completeness auto
termination
  by (relation "measure id") auto

declare toString.simps [simp del]

text \<open>\<^verbatim>\<open>s.padStart(n, "0")\<close> and \<^verbatim>\<open>s.replace(/0+$/, "")\<close>.\<close>

definition padStart :: "nat \<Rightarrow> char \<Rightarrow> string \<Rightarrow> string" where
  "padStart n c s = replicate (n - length s) c @ s"

definition strip_trailing_zeros :: "string \<Rightarrow> string" where
  "strip_trailing_zeros s = rev (dropWhile (\<lambda>c. c = CHR ''0'') (rev s))"

definition formatAmount :: "nat \<Rightarrow> nat \<Rightarrow> string" where
  "formatAmount amount decs =
     (if decs = 0 then toString amount
      else
        (let divisor = 10 ^ decs;
             integerPart = amount div divisor;
             fractionalPart = amount mod divisor;
             fracStr = strip_trailing_zeros (padStart decs CHR ''0'' (toString fractionalPart))
         in if length fracStr > 0
            then toString integerPart @ ''.'' @ fracStr
            else toString integerPart))"

text \<open>
  \<^verbatim>\<open>intPart.replace(/\B(?=(\d{3})+(?!\d))/g, ",")\<close>. The pattern is empty and is tried
  before every character: \<^verbatim>\<open>\B\<close> holds where the characters on both sides are both word
  characters or both not (the ends of the string count as not), and the lookahead holds where the
  run of digits that starts here has a positive length divisible by 3.
\<close>

definition is_digit :: "char \<Rightarrow> bool" where
  "is_digit c = (c \<in> set ''0123456789'')"

definition is_word_char :: "char \<Rightarrow> bool" where
  "is_word_char c =
     (c \<in> set ''ABCDEFGHIJKLMNOPQRSTUVWXYZabcdefghijklmnopqrstuvwxyz0123456789_'')"

definition word_before :: "char option \<Rightarrow> bool" where
  "word_before prev = (case prev of None \<Rightarrow> False | Some p \<Rightarrow> is_word_char p)"

definition not_boundary :: "char option \<Rightarrow> char \<Rightarrow> bool" where
  "not_boundary prev c = (word_before prev = is_word_char c)"

definition groups_ahead :: "string \<Rightarrow> bool" where
  "groups_ahead s =
     (let d = length (takeWhile is_digit s) in d > 0 \<and> d mod 3 = 0)"

fun insert_commas :: "char option \<Rightarrow> string \<Rightarrow> string" where
  "insert_commas prev [] = []"
| "insert_commas prev (c # cs) =
     (if not_boundary prev c \<and> groups_ahead (c # cs)
      then CHR '','' # c # insert_commas (Some c) cs
      else c # insert_commas (Some c) cs)"

text \<open>
  Lines 240 to 255 of \<^verbatim>\<open>fetchEnrichmentMap\<close>: the amount is formatted, cut at the first
  \<^verbatim>\<open>.\<close> (\<^verbatim>\<open>indexOf\<close>, \<^verbatim>\<open>substring\<close>), and only the integer part gets separators.
\<close>

definition split_at_dot :: "string \<Rightarrow> string \<times> string" where
  "split_at_dot s =
     (case index_of CHR ''.'' s of
        None \<Rightarrow> (s, [])
      | Some dotIndex \<Rightarrow> (take dotIndex s, drop (dotIndex + 1) s))"

definition format_balance :: "nat \<Rightarrow> nat \<Rightarrow> string" where
  "format_balance amount decs =
     (let s = formatAmount amount decs;
          (intPart, fracPart) = split_at_dot s;
          intWithCommas = insert_commas None intPart
      in if fracPart \<noteq> [] then intWithCommas @ ''.'' @ fracPart else intWithCommas)"

subsection \<open>Grouping, as the specification words it\<close>

text \<open>A comma every 3 digits, counted from the right.\<close>

function group3 :: "string \<Rightarrow> string" where
  "group3 ds =
     (if length ds \<le> 3 then ds
      else group3 (take (length ds - 3) ds) @ '','' @ drop (length ds - 3) ds)"
  by pat_completeness auto
termination
  by (relation "measure length") auto

declare group3.simps [simp del]

definition fraction_digits :: "nat \<Rightarrow> nat \<Rightarrow> string" where
  "fraction_digits rawAmount decs =
     strip_trailing_zeros (padStart decs CHR ''0'' (toString (rawAmount mod 10 ^ decs)))"

definition format_spec :: "nat \<Rightarrow> nat \<Rightarrow> string" where
  "format_spec rawAmount decs =
     (if decs = 0 then group3 (toString rawAmount)
      else group3 (toString (rawAmount div 10 ^ decs))
           @ (if fraction_digits rawAmount decs = [] then []
              else ''.'' @ fraction_digits rawAmount decs))"

section \<open>Value trees and annotations\<close>

text \<open>
  The values of a decoded tree. An object made by an object literal or by \<^verbatim>\<open>JSON.parse\<close>
  has the prototype \<^verbatim>\<open>Object.prototype\<close>, here \<open>None\<close>; \<open>Some v\<close> is the prototype an
  assignment to \<^verbatim>\<open>__proto__\<close> has set: an object, an array or \<^verbatim>\<open>null\<close>.
\<close>

datatype jvalue =
    JNull
  | JUndefined
  | JBool bool
  | JNum int
  | JStr string
  | JArr "jvalue list"
  | JObj "jvalue option" "(string \<times> jvalue) list"

definition is_object :: "jvalue \<Rightarrow> bool" where
  "is_object v = (case v of JArr xs \<Rightarrow> True | JObj proto kvs \<Rightarrow> True | _ \<Rightarrow> False)"

text \<open>
  The enumerable properties \<^verbatim>\<open>for (const key in data)\<close> visits, with the value
  \<^verbatim>\<open>data[key]\<close>: the own properties, then those of the prototype chain that no nearer
  object has. An array has its elements under the keys \<^verbatim>\<open>"0"\<close>, \<^verbatim>\<open>"1"\<close>, and so on;
  \<^verbatim>\<open>Object.prototype\<close> and \<^verbatim>\<open>Array.prototype\<close> have no enumerable property.
\<close>

primrec props :: "jvalue \<Rightarrow> (string \<times> jvalue) list" where
  "props JNull = []"
| "props JUndefined = []"
| "props (JBool b) = []"
| "props (JNum n) = []"
| "props (JStr s) = []"
| "props (JArr xs) = zip (map toString [0..<length xs]) xs"
| "props (JObj proto kvs) =
     kvs @ filter (\<lambda>kv. fst kv \<notin> set (map fst kvs))
             (case map_option props proto of None \<Rightarrow> [] | Some inherited \<Rightarrow> inherited)"

text \<open>
  \<^verbatim>\<open>key in data\<close> and \<^verbatim>\<open>data[key]\<close> for a key that is no built-in property name (the
  code asks for \<^verbatim>\<open>__isEnriched\<close> and \<^verbatim>\<open>pubkey\<close>): \<open>None\<close> where the key is not
  in \<open>data\<close>.
\<close>

definition lookup_property :: "jvalue \<Rightarrow> string \<Rightarrow> jvalue option" where
  "lookup_property data key = map_of (props data) key"

text \<open>
  An array index is the decimal text, without a leading zero, of a number below \<open>2^32 - 1\<close>.
  The own property keys of an object are kept with the array indices first, in ascending
  order, and the other keys after them in the order of their creation.
\<close>

definition digit_value :: "char \<Rightarrow> nat" where
  "digit_value c = (case index_of c ''0123456789'' of None \<Rightarrow> 0 | Some d \<Rightarrow> d)"

definition array_index :: "string \<Rightarrow> nat option" where
  "array_index k =
     (let n = foldl (\<lambda>acc c. 10 * acc + digit_value c) 0 k
      in if k \<noteq> [] \<and> list_all is_digit k \<and> (k = ''0'' \<or> hd k \<noteq> CHR ''0'') \<and> n < 4294967295
         then Some n else None)"

definition key_precedes :: "string \<Rightarrow> string \<Rightarrow> bool" where
  "key_precedes k k' =
     (case array_index k of
        None \<Rightarrow> False
      | Some i \<Rightarrow> (case array_index k' of None \<Rightarrow> True | Some i' \<Rightarrow> i < i'))"

fun insert_key :: "(string \<times> jvalue) list \<Rightarrow> string \<Rightarrow> jvalue \<Rightarrow> (string \<times> jvalue) list" where
  "insert_key [] k v = [(k, v)]"
| "insert_key (kv # rest) k v =
     (if key_precedes k (fst kv) then (k, v) # kv # rest else kv # insert_key rest k v)"

text \<open>Creating or overwriting the own data property \<open>k\<close>.\<close>

definition put :: "(string \<times> jvalue) list \<Rightarrow> string \<Rightarrow> jvalue \<Rightarrow> (string \<times> jvalue) list" where
  "put kvs k v =
     (if k \<in> set (map fst kvs)
      then map (\<lambda>kv. if fst kv = k then (k, v) else kv) kvs
      else insert_key kvs k v)"

text \<open>
  \<^verbatim>\<open>newObj[key] = value\<close> on an object that began as \<^verbatim>\<open>{}\<close>. The key
  \<^verbatim>\<open>__proto__\<close> reaches the setter of \<^verbatim>\<open>Object.prototype\<close>: an object, an array or
  \<^verbatim>\<open>null\<close> becomes the prototype, any other value is ignored, and no own property is made.
\<close>

definition assign ::
    "jvalue option \<times> (string \<times> jvalue) list \<Rightarrow> string \<times> jvalue \<Rightarrow> jvalue option \<times> (string \<times> jvalue) list" where
  "assign newObj kv =
     (if fst kv = ''__proto__''
      then (if is_object (snd kv) \<or> snd kv = JNull then (Some (snd kv), snd newObj) else newObj)
      else (fst newObj, put (snd newObj) (fst kv) (snd kv)))"

text \<open>
  \<^verbatim>\<open>const newObj = {}; for (const key in data) { newObj[key] = f(data[key]); }\<close>, given
  the visited keys with the values \<^verbatim>\<open>f(data[key])\<close>.
\<close>

definition rebuild :: "(string \<times> jvalue) list \<Rightarrow> jvalue" where
  "rebuild entries =
     (let newObj = foldl assign (None, []) entries in JObj (fst newObj) (snd newObj))"

datatype enriched_type = Token | Labeled

text \<open>
  \<^verbatim>\<open>interface EnrichedPubkey\<close>. The field \<^verbatim>\<open>__isEnriched\<close> has the literal type
  \<^verbatim>\<open>true\<close> and is therefore not a field of the record; \<^verbatim>\<open>__type\<close> is \<open>etype\<close>.
\<close>

record EnrichedPubkey =
  pubkey :: string
  etype :: "enriched_type option"
  mint :: "string option"
  symbol :: "string option"
  decimals :: "nat option"
  balance :: "string option"
  logoURI :: "string option"
  name :: "string option"
  label :: "string option"

type_synonym enrichment_map = "string \<rightharpoonup> EnrichedPubkey"

definition type_string :: "enriched_type \<Rightarrow> jvalue" where
  "type_string t = (case t of Token \<Rightarrow> JStr ''token'' | Labeled \<Rightarrow> JStr ''labeled'')"

text \<open>
  One property of an object literal. A field that is missing in the record is a property with
  the value \<^verbatim>\<open>undefined\<close> where the literal always writes the property, and no property
  otherwise.
\<close>

definition own_field :: "bool \<Rightarrow> string \<Rightarrow> ('a \<Rightarrow> jvalue) \<Rightarrow> 'a option \<Rightarrow> (string \<times> jvalue) list" where
  "own_field always k f v =
     (case v of
        None \<Rightarrow> if always then [(k, JUndefined)] else []
      | Some x \<Rightarrow> [(k, f x)])"

text \<open>
  The object an annotation is inside a tree, with the properties in the order of the object
  literals of \<^verbatim>\<open>fetchEnrichmentMap\<close>. The two literals of type \<^verbatim>\<open>"token"\<close> always write
  \<^verbatim>\<open>logoURI\<close>, \<^verbatim>\<open>name\<close> and \<^verbatim>\<open>label\<close>.
\<close>

definition annotation_props :: "EnrichedPubkey \<Rightarrow> (string \<times> jvalue) list" where
  "annotation_props a =
     [(''__isEnriched'', JBool True)]
     @ own_field False ''__type'' type_string (etype a)
     @ own_field False ''mint'' JStr (mint a)
     @ [(''pubkey'', JStr (pubkey a))]
     @ own_field False ''symbol'' JStr (symbol a)
     @ own_field False ''decimals'' (\<lambda>d. JNum (int d)) (decimals a)
     @ own_field False ''balance'' JStr (balance a)
     @ own_field (etype a = Some Token) ''logoURI'' JStr (logoURI a)
     @ own_field (etype a = Some Token) ''name'' JStr (name a)
     @ own_field (etype a = Some Token) ''label'' JStr (label a)"

definition to_value :: "EnrichedPubkey \<Rightarrow> jvalue" where
  "to_value a = JObj None (annotation_props a)"

text \<open>
  \<^verbatim>\<open>data.match(/\((.*)\)$/)\<close>: the leftmost \<^verbatim>\<open>(\<close> from which the rest of the string, up to a
  closing \<^verbatim>\<open>)\<close> that ends it, has no line terminator (\<^verbatim>\<open>.\<close> does not match one). The
  result is capture group 1.
\<close>

definition is_line_terminator :: "char \<Rightarrow> bool" where
  "is_line_terminator c = (c = CHR 0x0A \<or> c = CHR 0x0D)"

fun match_wrapped :: "string \<Rightarrow> string option" where
  "match_wrapped [] = None"
| "match_wrapped (c # cs) =
     (if c = CHR ''('' \<and> cs \<noteq> [] \<and> last cs = CHR '')''
         \<and> filter is_line_terminator (butlast cs) = []
      then Some (butlast cs)
      else match_wrapped cs)"

text \<open>The replacement of a string: \<^verbatim>\<open>map.has(data)\<close>, then the match.\<close>

definition inject_string :: "string \<Rightarrow> enrichment_map \<Rightarrow> jvalue" where
  "inject_string s m =
     (case m s of
        Some a \<Rightarrow> to_value a
      | None \<Rightarrow>
         (case match_wrapped s of
            None \<Rightarrow> JStr s
          | Some g \<Rightarrow> (case m g of Some a \<Rightarrow> to_value a | None \<Rightarrow> JStr s)))"

function injectEnrichment :: "jvalue \<Rightarrow> enrichment_map \<Rightarrow> jvalue" where
  "injectEnrichment JNull m = JNull"
| "injectEnrichment JUndefined m = JUndefined"
| "injectEnrichment (JBool b) m = JBool b"
| "injectEnrichment (JNum n) m = JNum n"
| "injectEnrichment (JStr s) m = inject_string s m"
| "injectEnrichment (JArr xs) m = JArr (map (\<lambda>x. injectEnrichment x m) xs)"
| "injectEnrichment (JObj proto kvs) m =
     rebuild (map (\<lambda>kv. (fst kv, injectEnrichment (snd kv) m)) (props (JObj proto kvs)))"
  by pat_completeness auto
termination
proof -
  have props_smaller: "kv \<in> set (props t) \<Longrightarrow> size (snd kv) < size t" for kv t
  proof (induction t arbitrary: kv)
    case (JArr xs)
    then have "snd kv \<in> set xs"
      by (cases kv) (auto dest: set_zip_rightD)
    then have "size (snd kv) \<le> size_list size xs"
      by (simp add: size_list_estimation')
    then show ?case by simp
  next
    case (JObj proto kvs)
    show ?case
    proof (cases "kv \<in> set kvs")
      case True
      then have "size_prod (\<lambda>_. 0) size kv \<le> size_list (size_prod (\<lambda>_. 0) size) kvs"
        by (simp add: size_list_estimation')
      then show ?thesis by (cases kv) simp
    next
      case False
      with JObj.prems obtain p where p: "proto = Some p" "kv \<in> set (props p)"
        by (cases proto) auto
      with JObj.IH(1) have "size (snd kv) < size p" by simp
      with p show ?thesis by simp
    qed
  qed simp_all
  show ?thesis
  proof (relation "measure (\<lambda>(t, m). size t)")
    fix proto kvs and m :: enrichment_map and kv
  assume "kv \<in> set (props (JObj proto kvs))"
  then show "((snd kv, m), (JObj proto kvs, m)) \<in> measure (\<lambda>(t, m). size t)"
    using props_smaller [of kv "JObj proto kvs"] by simp
next
  fix xs and m :: enrichment_map and x :: jvalue
  assume "x \<in> set xs"
  then have "size x \<le> size_list size xs" by (simp add: size_list_estimation')
  then show "((x, m), (JArr xs, m)) \<in> measure (\<lambda>(t, m). size t)" by simp
  qed simp
qed

text \<open>
  The test of \<^verbatim>\<open>stripEnrichment\<close> for an annotation:
  \<^verbatim>\<open>"__isEnriched" in data && data.__isEnriched === true && "pubkey" in data\<close>.
\<close>

definition is_enriched :: "jvalue \<Rightarrow> bool" where
  "is_enriched data =
     (lookup_property data ''__isEnriched'' = Some (JBool True)
      \<and> lookup_property data ''pubkey'' \<noteq> None)"

function stripEnrichment :: "jvalue \<Rightarrow> jvalue" where
  "stripEnrichment JNull = JNull"
| "stripEnrichment JUndefined = JUndefined"
| "stripEnrichment (JBool b) = JBool b"
| "stripEnrichment (JNum n) = JNum n"
| "stripEnrichment (JStr s) = JStr s"
| "stripEnrichment (JArr xs) = JArr (map stripEnrichment xs)"
| "stripEnrichment (JObj proto kvs) =
     (if is_enriched (JObj proto kvs)
      then (case lookup_property (JObj proto kvs) ''pubkey'' of Some p \<Rightarrow> p | None \<Rightarrow> JUndefined)
      else rebuild (map (\<lambda>kv. (fst kv, stripEnrichment (snd kv))) (props (JObj proto kvs))))"
  by pat_completeness auto
termination
proof -
  have props_smaller: "kv \<in> set (props t) \<Longrightarrow> size (snd kv) < size t" for kv t
  proof (induction t arbitrary: kv)
    case (JArr xs)
    then have "snd kv \<in> set xs"
      by (cases kv) (auto dest: set_zip_rightD)
    then have "size (snd kv) \<le> size_list size xs"
      by (simp add: size_list_estimation')
    then show ?case by simp
  next
    case (JObj proto kvs)
    show ?case
    proof (cases "kv \<in> set kvs")
      case True
      then have "size_prod (\<lambda>_. 0) size kv \<le> size_list (size_prod (\<lambda>_. 0) size) kvs"
        by (simp add: size_list_estimation')
      then show ?thesis by (cases kv) simp
    next
      case False
      with JObj.prems obtain p where p: "proto = Some p" "kv \<in> set (props p)"
        by (cases proto) auto
      with JObj.IH(1) have "size (snd kv) < size p" by simp
      with p show ?thesis by simp
    qed
  qed simp_all
  show ?thesis
  proof (relation "measure size")
    fix proto kvs kv
  assume "kv \<in> set (props (JObj proto kvs))"
  then show "(snd kv, JObj proto kvs) \<in> measure size"
    using props_smaller [of kv "JObj proto kvs"] by simp
next
  fix xs and x :: jvalue
  assume "x \<in> set xs"
  then have "size x \<le> size_list size xs" by (simp add: size_list_estimation')
  then show "(x, JArr xs) \<in> measure size" by simp
  qed simp
qed

subsection \<open>Vocabulary for the round trip\<close>

text \<open>
  The order in which an object keeps properties that are created one after the other, and a
  tree as a decoder or \<^verbatim>\<open>JSON.parse\<close> makes it, short of one thing: every object has the
  prototype \<^verbatim>\<open>Object.prototype\<close>, lists its properties in its own order, and has no own
  property named \<^verbatim>\<open>__proto__\<close>.
\<close>

definition own_order :: "(string \<times> jvalue) list \<Rightarrow> (string \<times> jvalue) list" where
  "own_order kvs = foldl (\<lambda>acc kv. put acc (fst kv) (snd kv)) [] kvs"

primrec plain :: "jvalue \<Rightarrow> bool" where
  "plain JNull = True"
| "plain JUndefined = True"
| "plain (JBool b) = True"
| "plain (JNum n) = True"
| "plain (JStr s) = True"
| "plain (JArr xs) = list_all id (map plain xs)"
| "plain (JObj proto kvs) =
     (proto = None \<and> own_order kvs = kvs \<and> ''__proto__'' \<notin> set (map fst kvs)
      \<and> list_all snd (map (map_prod id plain) kvs))"

text \<open>
  What a string leaf is after inject and strip: itself, unless it is not a key of the map and
  the pattern \<^verbatim>\<open>/\((.*)\)$/\<close> captures a key in it, when it is that key.
\<close>

definition restored_leaf :: "enrichment_map \<Rightarrow> string \<Rightarrow> string" where
  "restored_leaf m s =
     (if m s \<noteq> None then s
      else (case match_wrapped s of
              None \<Rightarrow> s
            | Some g \<Rightarrow> if m g \<noteq> None then g else s))"

text \<open>
  What a plain tree is after inject and strip: every string leaf is restored, every other
  leaf is kept, and an object that had the shape of an annotation before is replaced by its
  \<^verbatim>\<open>pubkey\<close> value as inject has left it.
\<close>

primrec restored :: "enrichment_map \<Rightarrow> jvalue \<Rightarrow> jvalue" where
  "restored m JNull = JNull"
| "restored m JUndefined = JUndefined"
| "restored m (JBool b) = JBool b"
| "restored m (JNum n) = JNum n"
| "restored m (JStr s) = JStr (restored_leaf m s)"
| "restored m (JArr xs) = JArr (map (restored m) xs)"
| "restored m (JObj proto kvs) =
     (if is_enriched (JObj proto kvs)
      then (case lookup_property (JObj proto kvs) ''pubkey'' of
              Some p \<Rightarrow> injectEnrichment p m
            | None \<Rightarrow> JUndefined)
      else JObj proto (map (map_prod id (restored m)) kvs))"

text \<open>Every annotation of the map has its own key as \<open>pubkey\<close>.\<close>

definition carries_key :: "enrichment_map \<Rightarrow> bool" where
  "carries_key m = (\<forall>k a. m k = Some a \<longrightarrow> pubkey a = k)"

text \<open>Inject leaves every annotation of the map as it is.\<close>

definition stable :: "enrichment_map \<Rightarrow> bool" where
  "stable m = (\<forall>k a. m k = Some a \<longrightarrow> injectEnrichment (to_value a) m = to_value a)"

section \<open>The external calls\<close>

text \<open>
  \<^verbatim>\<open>DataService.fetchAccountInfo(chunk)\<close> is not among the sources. Its value is read as
  \<^verbatim>\<open>chunkInfos[j]\<close> beside \<^verbatim>\<open>chunk[j]\<close>, one entry (or \<^verbatim>\<open>null\<close>) for each address
  asked for; the chunk comes from a \<^verbatim>\<open>Set\<close> and has no duplicates, so the value is taken as a
  function of the address. \<open>info_data\<close> is \<^verbatim>\<open>info.data[0]\<close>, the base64 text.
\<close>

record account_info =
  info_owner :: string
  info_data :: string

datatype account_response =
    AccountFetchThrows
  | AccountValue "string \<Rightarrow> account_info option"

text \<open>
  The answer to \<^verbatim>\<open>fetch(`/api/token-metadata?list=${query}`)\<close>: the call throws, or the
  response is not \<^verbatim>\<open>ok\<close>, or \<^verbatim>\<open>res.json()\<close> throws, or the body has a \<^verbatim>\<open>success\<close> flag
  and perhaps a \<^verbatim>\<open>data\<close> object from mint to payload.
\<close>

record token_meta =
  meta_symbol :: "string option"
  meta_decimals :: "nat option"
  meta_name :: "string option"

datatype api_response =
    FetchThrows
  | NotOk
  | JsonThrows
  | Json bool "(string \<rightharpoonup> token_meta) option"

text \<open>The requests issued so far, in order.\<close>

record world =
  account_requests :: "string list list"
  metadata_requests :: "string list list"

record env =
  fetchAccountInfo :: "world \<Rightarrow> string list \<Rightarrow> account_response"
  fetch_token_metadata :: "world \<Rightarrow> string list \<Rightarrow> api_response"

type_synonym label_lookup = "(string \<Rightarrow> string option) option"

section \<open>Building the enrichment map\<close>

text \<open>\<^verbatim>\<open>for (let k = 0; k < xs.length; k += n) out.push(xs.slice(k, k + n))\<close>.\<close>

function slices :: "nat \<Rightarrow> 'a list \<Rightarrow> 'a list list" where
  "slices n xs = (if n = 0 \<or> xs = [] then [] else take n xs # slices n (drop n xs))"
  by pat_completeness auto
termination
  by (relation "measure (\<lambda>(n, xs). length xs)") auto

declare slices.simps [simp del]

record TokenAccountData =
  ta_pubkey :: string
  ta_mint :: string
  ta_amount :: nat

record scan =
  tokenAccounts :: "TokenAccountData list"
  mintAccounts :: "string list"
  uniqueMints :: "string list"

definition empty_scan :: scan where
  "empty_scan = \<lparr>tokenAccounts = [], mintAccounts = [], uniqueMints = []\<rparr>"

text \<open>\<^verbatim>\<open>Set.prototype.add\<close> on a set kept in insertion order.\<close>

definition set_add :: "'a list \<Rightarrow> 'a \<Rightarrow> 'a list" where
  "set_add xs x = (if x \<in> set xs then xs else xs @ [x])"

definition identify_account :: "(string \<Rightarrow> account_info option) \<Rightarrow> scan \<Rightarrow> string \<Rightarrow> scan" where
  "identify_account chunkInfos sc pubkeyStr =
     (case chunkInfos pubkeyStr of
        None \<Rightarrow> sc
      | Some info \<Rightarrow>
         (let dataBuf = base64ToBytes (info_data info) in
          case classify (info_owner info) dataBuf of
            TokenHolding \<Rightarrow>
              (let mt = token_mint dataBuf;
                   amount = token_amount dataBuf
               in sc\<lparr>tokenAccounts := tokenAccounts sc
                        @ [\<lparr>ta_pubkey = pubkeyStr, ta_mint = mt, ta_amount = amount\<rparr>],
                      uniqueMints := set_add (uniqueMints sc) mt\<rparr>)
          | MintRecord \<Rightarrow>
              sc\<lparr>mintAccounts := mintAccounts sc @ [pubkeyStr],
                 uniqueMints := set_add (uniqueMints sc) pubkeyStr\<rparr>
          | Unclassified \<Rightarrow> sc))"

record MintInfo =
  mi_symbol :: string
  mi_decimals :: nat
  mi_logoURI :: "string option"
  mi_name :: "string option"

type_synonym mint_info_map = "string \<rightharpoonup> MintInfo"

definition icon_url :: "string \<Rightarrow> string" where
  "icon_url mt = SUPABASE_TOKEN_ICON_URL @ ''/'' @ mt @ ''.png''"

text \<open>
  \<^verbatim>\<open>meta.symbol || "Unknown"\<close> and \<^verbatim>\<open>meta.decimals || 0\<close>: a missing field, the empty
  string and 0 are falsy.
\<close>

definition mint_info_of :: "string \<Rightarrow> token_meta \<Rightarrow> MintInfo" where
  "mint_info_of mt meta =
     \<lparr>mi_symbol = (case meta_symbol meta of
                     None \<Rightarrow> ''Unknown''
                   | Some s \<Rightarrow> if s = [] then ''Unknown'' else s),
      mi_decimals = (case meta_decimals meta of
                       None \<Rightarrow> 0
                     | Some d \<Rightarrow> if d = 0 then 0 else d),
      mi_logoURI = Some (icon_url mt),
      mi_name = meta_name meta\<rparr>"

definition store_metadata :: "(string \<rightharpoonup> token_meta) \<Rightarrow> mint_info_map \<Rightarrow> string \<Rightarrow> mint_info_map" where
  "store_metadata data mintInfoMap mt =
     (case data mt of
        None \<Rightarrow> mintInfoMap
      | Some meta \<Rightarrow> mintInfoMap(mt \<mapsto> mint_info_of mt meta))"

definition merge_response :: "api_response \<Rightarrow> string list \<Rightarrow> mint_info_map \<Rightarrow> mint_info_map" where
  "merge_response res apiChunk mintInfoMap =
     (case res of
        Json success (Some data) \<Rightarrow>
          if success then foldl (store_metadata data) mintInfoMap apiChunk else mintInfoMap
      | _ \<Rightarrow> mintInfoMap)"

fun fetch_batches :: "env \<Rightarrow> string list list \<Rightarrow> world \<Rightarrow> mint_info_map \<Rightarrow> world \<times> mint_info_map" where
  "fetch_batches e [] w mintInfoMap = (w, mintInfoMap)"
| "fetch_batches e (apiChunk # rest) w mintInfoMap =
     (let res = fetch_token_metadata e w apiChunk;
          w' = w\<lparr>metadata_requests := metadata_requests w @ [apiChunk]\<rparr>
      in fetch_batches e rest w' (merge_response res apiChunk mintInfoMap))"

definition fetch_mint_info :: "env \<Rightarrow> world \<Rightarrow> string list \<Rightarrow> world \<times> mint_info_map" where
  "fetch_mint_info e w mintsList = fetch_batches e (slices 50 mintsList) w Map.empty"

definition default_info :: "string \<Rightarrow> MintInfo" where
  "default_info mt =
     \<lparr>mi_symbol = ''Unknown'', mi_decimals = 0, mi_logoURI = Some (icon_url mt), mi_name = None\<rparr>"

definition lookup_label :: "label_lookup \<Rightarrow> string \<Rightarrow> string option" where
  "lookup_label getLabel pk = (case getLabel of None \<Rightarrow> None | Some g \<Rightarrow> g pk)"

text \<open>The object literals of the two loops over \<^verbatim>\<open>tokenAccounts\<close> and \<^verbatim>\<open>mintAccounts\<close>.\<close>

definition token_annotation :: "label_lookup \<Rightarrow> mint_info_map \<Rightarrow> TokenAccountData \<Rightarrow> EnrichedPubkey" where
  "token_annotation getLabel mintInfoMap ta =
     (let info = (case mintInfoMap (ta_mint ta) of
                    Some i \<Rightarrow> i
                  | None \<Rightarrow> default_info (ta_mint ta));
          finalAmt = format_balance (ta_amount ta) (mi_decimals info)
      in \<lparr>pubkey = ta_pubkey ta, etype = Some Token, mint = Some (ta_mint ta),
          symbol = Some (mi_symbol info), decimals = Some (mi_decimals info),
          balance = Some finalAmt, logoURI = mi_logoURI info, name = mi_name info,
          label = lookup_label getLabel (ta_pubkey ta)\<rparr>)"

definition mint_annotation :: "label_lookup \<Rightarrow> mint_info_map \<Rightarrow> string \<Rightarrow> EnrichedPubkey" where
  "mint_annotation getLabel mintInfoMap mintPubkey =
     (let info = (case mintInfoMap mintPubkey of
                    Some i \<Rightarrow> i
                  | None \<Rightarrow> default_info mintPubkey)
      in \<lparr>pubkey = mintPubkey, etype = Some Token, mint = Some mintPubkey,
          symbol = Some (mi_symbol info), decimals = Some (mi_decimals info),
          balance = None, logoURI = mi_logoURI info, name = mi_name info,
          label = lookup_label getLabel mintPubkey\<rparr>)"

definition enrich_token_account ::
    "label_lookup \<Rightarrow> mint_info_map \<Rightarrow> enrichment_map \<Rightarrow> TokenAccountData \<Rightarrow> enrichment_map" where
  "enrich_token_account getLabel mintInfoMap enrichmentMap ta =
     enrichmentMap(ta_pubkey ta \<mapsto> token_annotation getLabel mintInfoMap ta)"

definition enrich_mint_account ::
    "label_lookup \<Rightarrow> mint_info_map \<Rightarrow> enrichment_map \<Rightarrow> string \<Rightarrow> enrichment_map" where
  "enrich_mint_account getLabel mintInfoMap enrichmentMap mintPubkey =
     enrichmentMap(mintPubkey \<mapsto> mint_annotation getLabel mintInfoMap mintPubkey)"

text \<open>
  The account lookup of one chunk: \<^verbatim>\<open>catch\<close> replaces a failed lookup by
  \<^verbatim>\<open>new Array(chunk.length).fill(null)\<close>.
\<close>

definition chunk_infos :: "env \<Rightarrow> world \<Rightarrow> string list \<Rightarrow> string \<Rightarrow> account_info option" where
  "chunk_infos e w chunk =
     (case fetchAccountInfo e w chunk of
        AccountValue v \<Rightarrow> v
      | AccountFetchThrows \<Rightarrow> (\<lambda>_. None))"

text \<open>
  One pass of the loop over chunks of 100 keys; a chunk with no mint asks for no metadata
  (\<^verbatim>\<open>continue\<close>).
\<close>

definition process_chunk ::
    "env \<Rightarrow> label_lookup \<Rightarrow> world \<times> enrichment_map \<Rightarrow> string list \<Rightarrow> world \<times> enrichment_map" where
  "process_chunk e getLabel st chunk =
     (let (w, enrichmentMap) = st;
          chunkInfos = chunk_infos e w chunk;
          w1 = w\<lparr>account_requests := account_requests w @ [chunk]\<rparr>;
          sc = foldl (identify_account chunkInfos) empty_scan chunk
      in if uniqueMints sc = [] then (w1, enrichmentMap)
         else
           (let (w2, mintInfoMap) = fetch_mint_info e w1 (uniqueMints sc);
                m1 = foldl (enrich_token_account getLabel mintInfoMap) enrichmentMap (tokenAccounts sc);
                m2 = foldl (enrich_mint_account getLabel mintInfoMap) m1 (mintAccounts sc)
            in (w2, m2)))"

definition labeled_annotation :: "string \<Rightarrow> string \<Rightarrow> EnrichedPubkey" where
  "labeled_annotation pk l =
     \<lparr>pubkey = pk, etype = Some Labeled, mint = None, symbol = None, decimals = None,
      balance = None, logoURI = None, name = None, label = Some l\<rparr>"

text \<open>The body of the last loop; \<^verbatim>\<open>if (label)\<close> holds for a non-empty string.\<close>

definition label_address :: "(string \<Rightarrow> string option) \<Rightarrow> enrichment_map \<Rightarrow> string \<Rightarrow> enrichment_map" where
  "label_address g enrichmentMap pk =
     (case enrichmentMap pk of
        None \<Rightarrow>
          (case g pk of
             None \<Rightarrow> enrichmentMap
           | Some l \<Rightarrow> if l \<noteq> [] then enrichmentMap(pk \<mapsto> labeled_annotation pk l) else enrichmentMap)
      | Some existing \<Rightarrow>
          (case g pk of
             None \<Rightarrow> enrichmentMap
           | Some l \<Rightarrow> if l \<noteq> [] then enrichmentMap(pk \<mapsto> existing\<lparr>label := Some l\<rparr>) else enrichmentMap))"

text \<open>The map after the loop over the chunks, before the labels.\<close>

definition enrich_chunks :: "env \<Rightarrow> world \<Rightarrow> string list \<Rightarrow> label_lookup \<Rightarrow> world \<times> enrichment_map" where
  "enrich_chunks e w keys getLabel = foldl (process_chunk e getLabel) (w, Map.empty) (slices 100 keys)"

text \<open>
  \<^verbatim>\<open>fetchEnrichmentMap(pubkeys, getLabel)\<close>; \<open>pubkeys\<close> is the set in its iteration
  order. The result is the map, with the requests issued.
\<close>

definition fetchEnrichmentMap :: "env \<Rightarrow> world \<Rightarrow> string list \<Rightarrow> label_lookup \<Rightarrow> world \<times> enrichment_map" where
  "fetchEnrichmentMap e w pubkeys getLabel =
     (if pubkeys = [] then (w, Map.empty)
      else
        (let (w', enrichmentMap) = enrich_chunks e w pubkeys getLabel
         in (w', case getLabel of
                   None \<Rightarrow> enrichmentMap
                 | Some g \<Rightarrow> foldl (label_address g) enrichmentMap pubkeys)))"

section \<open>Sample data\<close>

definition sample_address :: string where
  "sample_address = ''9xQeWvG816bUx9EPjHmaT23yvVM2ZWbrrpZb9PusVFin''"

definition sample_map :: enrichment_map where
  "sample_map = [sample_address \<mapsto> labeled_annotation sample_address ''Treasury'']"

definition sample_tree :: jvalue where
  "sample_tree =
     JObj None
          [(''owner'', JStr sample_address),
           (''notes'', JArr [JStr ''hello'', JNum 7, JNull])]"

text \<open>The value of \<^verbatim>\<open>JSON.parse('{"__proto__": "x", "a": "y"}')\<close>.\<close>

definition proto_tree :: jvalue where
  "proto_tree = JObj None [(''__proto__'', JStr ''x''), (''a'', JStr ''y'')]"

text \<open>A map from an alias to an annotation none of whose texts is a key.\<close>

definition alias_map :: enrichment_map where
  "alias_map = [''treasury'' \<mapsto> labeled_annotation sample_address ''Treasury'']"

definition wrapped_leaf :: string where
  "wrapped_leaf = ''Vault ('' @ sample_address @ '')''"

definition sample_mint :: string where
  "sample_mint = ''EPjFWdd5AufqSSqeM2qN1xzybapC8G4wEGGkZwyTDt1v''"

definition sample_mint_bytes :: "byte list" where
  "sample_mint_bytes =
     [198, 250, 122, 243, 190, 219, 173, 58,
      61, 101, 243, 106, 171, 201, 116, 49,
      177, 187, 228, 194, 210, 246, 224, 228,
      124, 166, 2, 3, 69, 47, 93, 97]"

text \<open>A holding record of 165 bytes: the mint, 32 bytes of owner, the amount 250000.\<close>

definition sample_holding :: "byte list" where
  "sample_holding =
     sample_mint_bytes @ replicate 32 0 @ [144, 208, 3, 0, 0, 0, 0, 0] @ replicate 93 0"

text \<open>The same record as the account lookup delivers it: 220 characters of base64.\<close>

definition sample_holding_base64 :: string where
  "sample_holding_base64 =
     ''xvp6877brTo9ZfNqq8l0MbG75MLS9uDkfKYCA0UvXWEAAAAAAAAAAAA''
     @ ''AAAAAAAAAAAAAAAAAAAAAAAAAAAAAAJDQAwAAAAAAAAAAAAAAAAAAAA''
     @ ''AAAAAAAAAAAAAAAAAAAAAAAAAAAAAAAAAAAAAAAAAAAAAAAAAAAAAAA''
     @ ''AAAAAAAAAAAAAAAAAAAAAAAAAAAAAAAAAAAAAAAAAAAAAAAAAAAAAAA''"

definition treasury_address :: string where
  "treasury_address = ''7xKXtg2CW87d97TXJSDpbD5jBkheTqA83TZRuJosgAsU''"

definition garbled_address :: string where
  "garbled_address = ''4k3Dyjzvzp8eMZWUXbBCjEvwSkkk59S5iCNLY3QrkX6R''"

text \<open>
  An account lookup that knows a holding record at \<open>sample_address\<close> and an account with
  undecodable data at \<open>garbled_address\<close>, and nothing else.
\<close>

definition sample_accounts :: "string \<Rightarrow> account_info option" where
  "sample_accounts k =
     (if k = sample_address
      then Some \<lparr>info_owner = TOKEN_PROGRAM_ID, info_data = sample_holding_base64\<rparr>
      else if k = garbled_address
      then Some \<lparr>info_owner = TOKEN_PROGRAM_ID, info_data = ''!!!''\<rparr>
      else None)"

definition sample_meta :: token_meta where
  "sample_meta = \<lparr>meta_symbol = Some ''USDC'', meta_decimals = Some 6, meta_name = Some ''USD Coin''\<rparr>"

definition sample_env :: env where
  "sample_env =
     \<lparr>fetchAccountInfo = (\<lambda>w chunk. AccountValue sample_accounts),
      fetch_token_metadata = (\<lambda>w req. Json True (Some [sample_mint \<mapsto> sample_meta]))\<rparr>"

text \<open>The same accounts with a metadata service that is down.\<close>

definition silent_env :: env where
  "silent_env =
     \<lparr>fetchAccountInfo = (\<lambda>w chunk. AccountValue sample_accounts),
      fetch_token_metadata = (\<lambda>w req. NotOk)\<rparr>"

text \<open>The same accounts with a metadata service that knows the mint under an empty symbol.\<close>

definition nameless_meta :: token_meta where
  "nameless_meta = \<lparr>meta_symbol = Some [], meta_decimals = Some 6, meta_name = Some ''USD Coin''\<rparr>"

definition nameless_env :: env where
  "nameless_env =
     \<lparr>fetchAccountInfo = (\<lambda>w chunk. AccountValue sample_accounts),
      fetch_token_metadata = (\<lambda>w req. Json True (Some [sample_mint \<mapsto> nameless_meta]))\<rparr>"

definition sample_world :: world where
  "sample_world = \<lparr>account_requests = [], metadata_requests = []\<rparr>"

definition sample_labels :: "string \<Rightarrow> string option" where
  "sample_labels k =
     (if k = treasury_address then Some ''Treasury''
      else if k = garbled_address then Some ''Broken''
      else if k = sample_address then Some ''Hot wallet''
      else None)"

definition sample_keys :: "string list" where
  "sample_keys = [sample_address, treasury_address, garbled_address]"

text \<open>120 different mints, and a metadata service that fails for a batch of fewer than 50.\<close>

definition sample_mints :: "string list" where
  "sample_mints = map (\<lambda>n. replicate (Suc n) CHR ''1'') [0..<120]"

definition flaky_env :: env where
  "flaky_env =
     \<lparr>fetchAccountInfo = (\<lambda>w chunk. AccountFetchThrows),
      fetch_token_metadata =
        (\<lambda>w req. if length req < 50 then FetchThrows else Json True (Some (\<lambda>mt. Some sample_meta)))\<rparr>"

text \<open>The annotation of the sample holding, with the metadata of \<open>sample_env\<close> and the sample labels.\<close>

definition sample_annotation :: EnrichedPubkey where
  "sample_annotation =
     \<lparr>pubkey = sample_address, etype = Some Token, mint = Some sample_mint,
      symbol = Some ''USDC'', decimals = Some 6, balance = Some ''0.25'',
      logoURI = Some (SUPABASE_TOKEN_ICON_URL @ ''/'' @ sample_mint @ ''.png''),
      name = Some ''USD Coin'', label = Some ''Hot wallet''\<rparr>"

text \<open>A label lookup that returns the empty string for \<open>treasury_address\<close>.\<close>

definition blank_labels :: "string \<Rightarrow> string option" where
  "blank_labels k = (if k = treasury_address then Some [] else None)"

section \<open>Vocabulary for the properties of the builder\<close>

text \<open>
  What one response contributes for a mint of its batch: an entry, when the body has
  \<^verbatim>\<open>success\<close> and \<^verbatim>\<open>data\<close> and \<^verbatim>\<open>data[mint]\<close>; nothing otherwise.
\<close>

definition batch_entry :: "api_response \<Rightarrow> string \<Rightarrow> MintInfo option" where
  "batch_entry res mt =
     (case res of
        Json success (Some data) \<Rightarrow> if success then map_option (mint_info_of mt) (data mt) else None
      | _ \<Rightarrow> None)"

text \<open>The response to batch \<open>i\<close>: the service has seen the batches before it.\<close>

definition batch_response :: "env \<Rightarrow> world \<Rightarrow> string list list \<Rightarrow> nat \<Rightarrow> api_response" where
  "batch_response e w batches i =
     fetch_token_metadata e
       (w\<lparr>metadata_requests := metadata_requests w @ take i batches\<rparr>) (batches ! i)"

text \<open>The kind of an address under an account lookup, and the entry of a holding record.\<close>

definition kind_of :: "(string \<Rightarrow> account_info option) \<Rightarrow> string \<Rightarrow> account_kind" where
  "kind_of chunkInfos k =
     (case chunkInfos k of
        None \<Rightarrow> Unclassified
      | Some info \<Rightarrow> classify (info_owner info) (base64ToBytes (info_data info)))"

definition token_entry :: "(string \<Rightarrow> account_info option) \<Rightarrow> string \<Rightarrow> TokenAccountData" where
  "token_entry chunkInfos k =
     (case chunkInfos k of
        None \<Rightarrow> \<lparr>ta_pubkey = k, ta_mint = token_mint [], ta_amount = token_amount []\<rparr>
      | Some info \<Rightarrow>
          \<lparr>ta_pubkey = k, ta_mint = token_mint (base64ToBytes (info_data info)),
           ta_amount = token_amount (base64ToBytes (info_data info))\<rparr>)"

text \<open>
  An annotation the loop over the chunks can store for an address: the address was classified
  under some account lookup, and the annotation was built with the metadata fetched for a list
  of mints that holds its mint.
\<close>

definition built_from :: "env \<Rightarrow> label_lookup \<Rightarrow> string \<Rightarrow> EnrichedPubkey \<Rightarrow> bool" where
  "built_from e getLabel p a =
     (\<exists>w chunk w1 mints.
        (kind_of (chunk_infos e w chunk) p = TokenHolding
         \<and> ta_mint (token_entry (chunk_infos e w chunk) p) \<in> set mints
         \<and> a = token_annotation getLabel (snd (fetch_mint_info e w1 mints))
                 (token_entry (chunk_infos e w chunk) p))
        \<or> (kind_of (chunk_infos e w chunk) p = MintRecord
            \<and> p \<in> set mints
            \<and> a = mint_annotation getLabel (snd (fetch_mint_info e w1 mints)) p))"

text \<open>The metadata an annotation is built with, and an annotation that shows it.\<close>

definition resolved_info :: "mint_info_map \<Rightarrow> string \<Rightarrow> MintInfo" where
  "resolved_info mp mt = (case mp mt of Some i \<Rightarrow> i | None \<Rightarrow> default_info mt)"

definition with_info :: "string \<Rightarrow> MintInfo \<Rightarrow> EnrichedPubkey \<Rightarrow> bool" where
  "with_info mt i a =
     (mint a = Some mt \<and> symbol a = Some (mi_symbol i) \<and> decimals a = Some (mi_decimals i)
      \<and> logoURI a = mi_logoURI i \<and> name a = mi_name i)"

text \<open>
  Pass \<open>j\<close> of the loop over the chunks of 100 keys: the state it starts from, the accounts
  its lookup returns, the mints it finds, and the world in which it asks for their metadata.
\<close>

definition pass_state :: "env \<Rightarrow> label_lookup \<Rightarrow> world \<Rightarrow> string list \<Rightarrow> nat \<Rightarrow> world \<times> enrichment_map" where
  "pass_state e getLabel w keys j =
     foldl (process_chunk e getLabel) (w, Map.empty) (take j (slices 100 keys))"

definition pass_infos :: "env \<Rightarrow> label_lookup \<Rightarrow> world \<Rightarrow> string list \<Rightarrow> nat \<Rightarrow> string \<Rightarrow> account_info option" where
  "pass_infos e getLabel w keys j =
     chunk_infos e (fst (pass_state e getLabel w keys j)) (slices 100 keys ! j)"

definition pass_mints :: "env \<Rightarrow> label_lookup \<Rightarrow> world \<Rightarrow> string list \<Rightarrow> nat \<Rightarrow> string list" where
  "pass_mints e getLabel w keys j =
     uniqueMints (foldl (identify_account (pass_infos e getLabel w keys j)) empty_scan
        (slices 100 keys ! j))"

definition pass_world :: "env \<Rightarrow> label_lookup \<Rightarrow> world \<Rightarrow> string list \<Rightarrow> nat \<Rightarrow> world" where
  "pass_world e getLabel w keys j =
     (fst (pass_state e getLabel w keys j))
       \<lparr>account_requests :=
          account_requests (fst (pass_state e getLabel w keys j)) @ [slices 100 keys ! j]\<rparr>"

text \<open>The metadata pass \<open>j\<close> fetches.\<close>

definition pass_metadata :: "env \<Rightarrow> label_lookup \<Rightarrow> world \<Rightarrow> string list \<Rightarrow> nat \<Rightarrow> mint_info_map" where
  "pass_metadata e gl w keys j =
     snd (fetch_mint_info e (pass_world e gl w keys j) (pass_mints e gl w keys j))"

text \<open>What one pass stores for an address.\<close>

definition stored :: "label_lookup \<Rightarrow> mint_info_map \<Rightarrow> (string \<Rightarrow> account_info option) \<Rightarrow> string \<Rightarrow> EnrichedPubkey option" where
  "stored gl mp infos p =
     (case kind_of infos p of
        TokenHolding \<Rightarrow> Some (token_annotation gl mp (token_entry infos p))
      | MintRecord \<Rightarrow> Some (mint_annotation gl mp p)
      | Unclassified \<Rightarrow> None)"

section \<open>Rebuilding an object\<close>

lemma entries_map_prod: "map (\<lambda>kv. (fst kv, f (snd kv))) kvs = map (map_prod id f) kvs"
  by (simp add: map_prod_def case_prod_beta)

lemma insert_key_entries:
  "insert_key (map (\<lambda>kv. (fst kv, f (snd kv))) kvs) k (f v)
     = map (\<lambda>kv. (fst kv, f (snd kv))) (insert_key kvs k v)"
  by (induction kvs) simp_all

lemma put_entries:
  "put (map (\<lambda>kv. (fst kv, f (snd kv))) kvs) k (f v) = map (\<lambda>kv. (fst kv, f (snd kv))) (put kvs k v)"
proof -
  have keys: "map fst (map (\<lambda>kv. (fst kv, f (snd kv))) kvs) = map fst kvs"
    by (simp add: comp_def)
  have upd: "map (\<lambda>kv. if fst kv = k then (k, f v) else kv) (map (\<lambda>kv. (fst kv, f (snd kv))) kvs)
      = map (\<lambda>kv. (fst kv, f (snd kv))) (map (\<lambda>kv. if fst kv = k then (k, v) else kv) kvs)"
    by (induction kvs) auto
  show ?thesis
    unfolding put_def keys using upd by (simp add: insert_key_entries)
qed

lemma own_order_fold_entries:
  "foldl (\<lambda>acc kv. put acc (fst kv) (snd kv))
      (map (\<lambda>kv. (fst kv, f (snd kv))) acc) (map (\<lambda>kv. (fst kv, f (snd kv))) kvs)
     = map (\<lambda>kv. (fst kv, f (snd kv))) (foldl (\<lambda>acc kv. put acc (fst kv) (snd kv)) acc kvs)"
proof (induction kvs arbitrary: acc)
  case Nil
  show ?case by simp
next
  case (Cons kv kvs)
  have "foldl (\<lambda>acc kv. put acc (fst kv) (snd kv))
      (map (\<lambda>kv. (fst kv, f (snd kv))) acc) (map (\<lambda>kv. (fst kv, f (snd kv))) (kv # kvs))
    = foldl (\<lambda>acc kv. put acc (fst kv) (snd kv))
      (put (map (\<lambda>kv. (fst kv, f (snd kv))) acc) (fst kv) (f (snd kv)))
      (map (\<lambda>kv. (fst kv, f (snd kv))) kvs)"
    by simp
  also have "\<dots> = foldl (\<lambda>acc kv. put acc (fst kv) (snd kv))
      (map (\<lambda>kv. (fst kv, f (snd kv))) (put acc (fst kv) (snd kv)))
      (map (\<lambda>kv. (fst kv, f (snd kv))) kvs)"
    by (simp only: put_entries)
  also have "\<dots> = map (\<lambda>kv. (fst kv, f (snd kv)))
      (foldl (\<lambda>acc kv. put acc (fst kv) (snd kv)) (put acc (fst kv) (snd kv)) kvs)"
    by (rule Cons.IH)
  finally show ?case by simp
qed

lemma own_order_entries:
  "own_order (map (\<lambda>kv. (fst kv, f (snd kv))) kvs) = map (\<lambda>kv. (fst kv, f (snd kv))) (own_order kvs)"
  using own_order_fold_entries [of f "[]" kvs] by (simp add: own_order_def)

lemma assign_fold:
  "''__proto__'' \<notin> set (map fst entries) \<Longrightarrow>
     foldl assign (proto, acc) entries
       = (proto, foldl (\<lambda>acc kv. put acc (fst kv) (snd kv)) acc entries)"
  by (induction entries arbitrary: acc) (auto simp: assign_def)

lemma rebuild_own_order:
  "''__proto__'' \<notin> set (map fst entries) \<Longrightarrow> rebuild entries = JObj None (own_order entries)"
  by (simp add: rebuild_def assign_fold own_order_def)

text \<open>On an object of a plain tree the loop is a \<open>map\<close> over the own properties.\<close>

lemma rebuild_plain:
  assumes "own_order kvs = kvs" and "''__proto__'' \<notin> set (map fst kvs)"
  shows "rebuild (map (\<lambda>kv. (fst kv, f (snd kv))) kvs) = JObj None (map (map_prod id f) kvs)"
proof -
  have "''__proto__'' \<notin> set (map fst (map (\<lambda>kv. (fst kv, f (snd kv))) kvs))"
    using assms(2) by (simp add: comp_def)
  then have "rebuild (map (\<lambda>kv. (fst kv, f (snd kv))) kvs)
      = JObj None (own_order (map (\<lambda>kv. (fst kv, f (snd kv))) kvs))"
    by (rule rebuild_own_order)
  also have "\<dots> = JObj None (map (\<lambda>kv. (fst kv, f (snd kv))) kvs)"
    by (simp only: own_order_entries assms(1))
  finally show ?thesis by (simp only: entries_map_prod)
qed

lemma props_ordinary: "props (JObj None kvs) = kvs"
  by simp

lemma inject_plain_object:
  assumes "plain (JObj proto kvs)"
  shows "injectEnrichment (JObj proto kvs) m = JObj None (map (map_prod id (\<lambda>v. injectEnrichment v m)) kvs)"
proof -
  from assms have p: "proto = None" and o: "own_order kvs = kvs"
    and n: "''__proto__'' \<notin> set (map fst kvs)" by simp_all
  have "injectEnrichment (JObj proto kvs) m
      = rebuild (map (\<lambda>kv. (fst kv, (\<lambda>v. injectEnrichment v m) (snd kv))) kvs)"
    by (simp add: p)
  also have "\<dots> = JObj None (map (map_prod id (\<lambda>v. injectEnrichment v m)) kvs)"
    using o n by (rule rebuild_plain)
  finally show ?thesis .
qed

lemma strip_plain_object:
  assumes "plain (JObj proto kvs)" and "\<not> is_enriched (JObj proto kvs)"
  shows "stripEnrichment (JObj proto kvs) = JObj None (map (map_prod id stripEnrichment) kvs)"
proof -
  from assms have p: "proto = None" and o: "own_order kvs = kvs"
    and n: "''__proto__'' \<notin> set (map fst kvs)" by simp_all
  have "stripEnrichment (JObj proto kvs) = rebuild (map (\<lambda>kv. (fst kv, stripEnrichment (snd kv))) kvs)"
    using assms(2) by (simp add: p)
  also have "\<dots> = JObj None (map (map_prod id stripEnrichment) kvs)"
    using o n by (rule rebuild_plain)
  finally show ?thesis .
qed

lemma strip_annotation_shaped:
  assumes "is_enriched (JObj proto kvs)"
  shows "stripEnrichment (JObj proto kvs)
           = (case lookup_property (JObj proto kvs) ''pubkey'' of Some p \<Rightarrow> p | None \<Rightarrow> JUndefined)"
  using assms by simp

section \<open>The object of an annotation\<close>

lemma own_field_key: "kv \<in> set (own_field always k f v) \<Longrightarrow> fst kv = k"
  by (auto simp: own_field_def split: option.splits if_splits)

lemma own_field_distinct: "distinct (map fst (own_field always k f v))"
  by (simp add: own_field_def split: option.splits)

lemma map_of_own_field: "k \<noteq> k' \<Longrightarrow> map_of (own_field always k' f v) k = None"
  by (simp add: own_field_def split: option.splits)

lemma annotation_keys:
  assumes "kv \<in> set (annotation_props a)"
  shows "fst kv \<in> set [''__isEnriched'', ''__type'', ''mint'', ''pubkey'', ''symbol'', ''decimals'',
            ''balance'', ''logoURI'', ''name'', ''label'']"
  using assms unfolding annotation_props_def
  by (auto dest!: own_field_key)

lemma annotation_keys_distinct: "distinct (map fst (annotation_props a))"
  unfolding annotation_props_def
  by (auto simp: own_field_distinct dest!: own_field_key)

lemma not_index_if_no_digit: "k \<noteq> [] \<Longrightarrow> \<not> is_digit (hd k) \<Longrightarrow> array_index k = None"
  by (cases k) (simp_all add: array_index_def Let_def)

lemma annotation_keys_plain:
  assumes "kv \<in> set (annotation_props a)"
  shows "array_index (fst kv) = None \<and> fst kv \<noteq> ''__proto__''"
proof -
  have "\<forall>k \<in> set [''__isEnriched'', ''__type'', ''mint'', ''pubkey'', ''symbol'', ''decimals'',
            ''balance'', ''logoURI'', ''name'', ''label'']. array_index k = None \<and> k \<noteq> ''__proto__''"
    by (simp add: not_index_if_no_digit is_digit_def)
  with annotation_keys [OF assms] show ?thesis by blast
qed

lemma insert_key_last:
  "array_index k = None \<Longrightarrow> insert_key kvs k v = kvs @ [(k, v)]"
  by (induction kvs) (simp_all add: key_precedes_def)

lemma own_order_append:
  assumes "distinct (map fst (acc @ kvs))" and "\<forall>kv \<in> set kvs. array_index (fst kv) = None"
  shows "foldl (\<lambda>acc kv. put acc (fst kv) (snd kv)) acc kvs = acc @ kvs"
  using assms
proof (induction kvs arbitrary: acc)
  case Nil
  show ?case by simp
next
  case (Cons kv kvs)
  have "fst kv \<notin> set (map fst acc)" using Cons.prems(1) by auto
  then have step: "put acc (fst kv) (snd kv) = acc @ [kv]"
    using Cons.prems(2) by (simp add: put_def insert_key_last)
  have "distinct (map fst ((acc @ [kv]) @ kvs))" using Cons.prems(1) by simp
  moreover have "\<forall>kv \<in> set kvs. array_index (fst kv) = None" using Cons.prems(2) by simp
  ultimately show ?case using Cons.IH [of "acc @ [kv]"] step by simp
qed

lemma own_order_annotation: "own_order (annotation_props a) = annotation_props a"
  using own_order_append [of "[]" "annotation_props a"] annotation_keys_distinct [of a]
    annotation_keys_plain [of _ a]
  by (simp add: own_order_def)

lemma own_field_leaf:
  assumes "kv \<in> set (own_field always k f v)" and "\<And>x. plain (f x)"
  shows "plain (snd kv)"
  using assms by (cases v; cases always) (auto simp: own_field_def)

lemma annotation_props_leaves:
  assumes "kv \<in> set (annotation_props a)"
  shows "plain (snd kv)"
proof -
  have t: "plain (type_string x)" for x
    by (cases x) (simp_all add: type_string_def)
  have s: "plain (JStr x)" for x by simp
  have n: "plain (JNum (int x))" for x by simp
  from assms consider
      "kv = (''__isEnriched'', JBool True)"
    | "kv \<in> set (own_field False ''__type'' type_string (etype a))"
    | "kv \<in> set (own_field False ''mint'' JStr (mint a))"
    | "kv = (''pubkey'', JStr (pubkey a))"
    | "kv \<in> set (own_field False ''symbol'' JStr (symbol a))"
    | "kv \<in> set (own_field False ''decimals'' (\<lambda>d. JNum (int d)) (decimals a))"
    | "kv \<in> set (own_field False ''balance'' JStr (balance a))"
    | "kv \<in> set (own_field (etype a = Some Token) ''logoURI'' JStr (logoURI a))"
    | "kv \<in> set (own_field (etype a = Some Token) ''name'' JStr (name a))"
    | "kv \<in> set (own_field (etype a = Some Token) ''label'' JStr (label a))"
    unfolding annotation_props_def by auto
  then show ?thesis
    by cases (simp_all add: own_field_leaf [OF _ t] own_field_leaf [OF _ s] own_field_leaf [OF _ n])
qed

lemma plain_to_value: "plain (to_value a)"
proof -
  have "''__proto__'' \<notin> set (map fst (annotation_props a))"
    by (fastforce dest: annotation_keys_plain)
  moreover have "list_all snd (map (map_prod id plain) (annotation_props a))"
    using annotation_props_leaves [of _ a] by (auto simp: list_all_iff)
  ultimately show ?thesis
    by (simp add: to_value_def own_order_annotation)
qed

lemma lookup_enriched_flag: "map_of (annotation_props a) ''__isEnriched'' = Some (JBool True)"
  by (simp add: annotation_props_def map_add_def map_of_own_field)

lemma lookup_pubkey: "map_of (annotation_props a) ''pubkey'' = Some (JStr (pubkey a))"
  by (simp add: annotation_props_def map_add_def map_of_own_field)

lemma is_enriched_to_value: "is_enriched (to_value a)"
  by (simp add: is_enriched_def lookup_property_def to_value_def lookup_enriched_flag lookup_pubkey)

lemma strip_to_value: "stripEnrichment (to_value a) = JStr (pubkey a)"
  using is_enriched_to_value [of a]
  by (simp add: to_value_def lookup_property_def lookup_pubkey)

section \<open>Inject and strip on a plain tree\<close>

lemma rebuild_is_object: "rebuild entries = JObj (fst (foldl assign (None, []) entries)) (snd (foldl assign (None, []) entries))"
  by (simp add: rebuild_def Let_def)

lemma inject_string_not_true: "inject_string s m \<noteq> JBool True"
  by (simp add: inject_string_def to_value_def split: option.splits)

lemma inject_eq_True: "injectEnrichment v m = JBool True \<longleftrightarrow> v = JBool True"
  by (cases v) (simp_all add: inject_string_not_true rebuild_is_object)

lemma map_of_map_prod: "map_of (map (map_prod id f) kvs) k = map_option f (map_of kvs k)"
  by (induction kvs) auto

lemma own_order_map_prod: "own_order kvs = kvs \<Longrightarrow> own_order (map (map_prod id f) kvs) = map (map_prod id f) kvs"
  using own_order_entries [of f kvs] by (simp only: entries_map_prod)

lemma is_enriched_inject:
  "is_enriched (JObj None (map (map_prod id (\<lambda>v. injectEnrichment v m)) kvs)) = is_enriched (JObj None kvs)"
  by (cases "map_of kvs ''__isEnriched''")
     (auto simp: is_enriched_def lookup_property_def map_of_map_prod inject_eq_True)

lemma plain_inject_string: "plain (inject_string s m)"
  by (simp add: inject_string_def plain_to_value split: option.splits)

lemma plain_inject: "plain t \<Longrightarrow> plain (injectEnrichment t m)"
proof (induction t)
  case (JStr s)
  show ?case by (simp add: plain_inject_string)
next
  case (JArr xs)
  then show ?case by (auto simp: list_all_iff)
next
  case (JObj proto kvs)
  have elems: "list_all snd (map (map_prod id plain) (map (map_prod id (\<lambda>v. injectEnrichment v m)) kvs))"
    using JObj by (fastforce simp: list_all_iff)
  from JObj.prems have o: "own_order kvs = kvs" and n: "''__proto__'' \<notin> set (map fst kvs)"
    by simp_all
  have "''__proto__'' \<notin> set (map fst (map (map_prod id (\<lambda>v. injectEnrichment v m)) kvs))"
    using n by (simp add: comp_def)
  then show ?case
    unfolding inject_plain_object [OF JObj.prems]
    using elems by (simp add: own_order_map_prod [OF o])
qed simp_all

lemma strip_inject_string:
  "carries_key m \<Longrightarrow> stripEnrichment (inject_string s m) = JStr (restored_leaf m s)"
  by (auto simp: inject_string_def restored_leaf_def strip_to_value carries_key_def
      split: option.splits)

lemma strip_inject:
  assumes "carries_key m" and "plain t"
  shows "stripEnrichment (injectEnrichment t m) = restored m t"
  using assms(2)
proof (induction t)
  case (JStr s)
  show ?case using assms(1) by (simp add: strip_inject_string)
next
  case (JArr xs)
  then show ?case by (auto simp: list_all_iff)
next
  case (JObj proto kvs)
  let ?inj = "\<lambda>v. injectEnrichment v m"
  from JObj.prems have p: "proto = None" by simp
  have inj: "injectEnrichment (JObj proto kvs) m = JObj None (map (map_prod id ?inj) kvs)"
    by (rule inject_plain_object [OF JObj.prems])
  have pl: "plain (JObj None (map (map_prod id ?inj) kvs))"
    using plain_inject [OF JObj.prems, of m] by (simp only: inj)
  show ?case
  proof (cases "is_enriched (JObj None kvs)")
    case True
    then have "is_enriched (JObj None (map (map_prod id ?inj) kvs))"
      by (simp only: is_enriched_inject)
    then have "stripEnrichment (JObj None (map (map_prod id ?inj) kvs))
        = (case lookup_property (JObj None (map (map_prod id ?inj) kvs)) ''pubkey'' of
             Some p \<Rightarrow> p | None \<Rightarrow> JUndefined)"
      by (rule strip_annotation_shaped)
    also have "\<dots> = (case lookup_property (JObj None kvs) ''pubkey'' of
             Some p \<Rightarrow> injectEnrichment p m | None \<Rightarrow> JUndefined)"
      by (cases "map_of kvs ''pubkey''") (simp_all add: lookup_property_def map_of_map_prod)
    finally have s: "stripEnrichment (JObj None (map (map_prod id ?inj) kvs))
        = (case lookup_property (JObj None kvs) ''pubkey'' of
             Some p \<Rightarrow> injectEnrichment p m | None \<Rightarrow> JUndefined)" .
    have r: "restored m (JObj proto kvs)
        = (case lookup_property (JObj None kvs) ''pubkey'' of
             Some p \<Rightarrow> injectEnrichment p m | None \<Rightarrow> JUndefined)"
      using True by (simp add: p)
    show ?thesis by (simp only: inj s r)
  next
    case False
    then have "\<not> is_enriched (JObj None (map (map_prod id ?inj) kvs))"
      by (simp add: is_enriched_inject)
    with pl have "stripEnrichment (JObj None (map (map_prod id ?inj) kvs))
        = JObj None (map (map_prod id stripEnrichment) (map (map_prod id ?inj) kvs))"
      by (rule strip_plain_object)
    also have "\<dots> = JObj None (map (map_prod id (restored m)) kvs)"
      using JObj by (fastforce simp: list_all_iff)
    finally have s: "stripEnrichment (JObj None (map (map_prod id ?inj) kvs))
        = JObj None (map (map_prod id (restored m)) kvs)" .
    have r: "restored m (JObj proto kvs) = JObj None (map (map_prod id (restored m)) kvs)"
      using False by (simp add: p)
    show ?thesis by (simp only: inj s r)
  qed
qed simp_all

section \<open>A second inject\<close>

lemma inject_string_stable:
  assumes "stable m"
  shows "injectEnrichment (inject_string s m) m = inject_string s m"
proof (cases "m s")
  case (Some a)
  with assms show ?thesis by (simp add: inject_string_def stable_def)
next
  case None
  show ?thesis
  proof (cases "match_wrapped s")
    case n: None
    with None show ?thesis by (simp add: inject_string_def)
  next
    case (Some g)
    show ?thesis
    proof (cases "m g")
      case n: None
      with None Some show ?thesis by (simp add: inject_string_def)
    next
      case a: (Some a)
      with assms have "injectEnrichment (to_value a) m = to_value a" by (simp add: stable_def)
      with None Some a show ?thesis by (simp add: inject_string_def)
    qed
  qed
qed

lemma inject_twice_stable:
  assumes "stable m" and "plain t"
  shows "injectEnrichment (injectEnrichment t m) m = injectEnrichment t m"
  using assms(2)
proof (induction t)
  case (JStr s)
  show ?case using assms(1) by (simp add: inject_string_stable)
next
  case (JArr xs)
  then show ?case by (auto simp: list_all_iff)
next
  case (JObj proto kvs)
  let ?inj = "\<lambda>v. injectEnrichment v m"
  have inj: "injectEnrichment (JObj proto kvs) m = JObj None (map (map_prod id ?inj) kvs)"
    by (rule inject_plain_object [OF JObj.prems])
  have pl: "plain (JObj None (map (map_prod id ?inj) kvs))"
    using plain_inject [OF JObj.prems, of m] by (simp only: inj)
  have "injectEnrichment (JObj None (map (map_prod id ?inj) kvs)) m
      = JObj None (map (map_prod id ?inj) (map (map_prod id ?inj) kvs))"
    by (rule inject_plain_object [OF pl])
  also have "\<dots> = JObj None (map (map_prod id ?inj) kvs)"
    using JObj by (fastforce simp: list_all_iff)
  finally show ?case by (simp only: inj)
qed simp_all

lemma inject_annotation_pubkey:
  "lookup_property (injectEnrichment (to_value a) m) ''pubkey'' = Some (inject_string (pubkey a) m)"
proof -
  have "injectEnrichment (to_value a) m
      = JObj None (map (map_prod id (\<lambda>v. injectEnrichment v m)) (annotation_props a))"
    using plain_to_value [of a] unfolding to_value_def by (rule inject_plain_object)
  then show ?thesis
    by (simp add: lookup_property_def map_of_map_prod lookup_pubkey)
qed

lemma inject_twice_differs:
  assumes "carries_key m" and "m k = Some a"
  shows "injectEnrichment (injectEnrichment (JStr k) m) m \<noteq> injectEnrichment (JStr k) m"
proof
  assume eq: "injectEnrichment (injectEnrichment (JStr k) m) m = injectEnrichment (JStr k) m"
  have first: "injectEnrichment (JStr k) m = to_value a"
    using assms(2) by (simp add: inject_string_def)
  have key: "pubkey a = k" using assms by (simp add: carries_key_def)
  have "lookup_property (injectEnrichment (to_value a) m) ''pubkey'' = Some (to_value a)"
    using inject_annotation_pubkey [of a m] assms(2) key by (simp add: inject_string_def)
  moreover have "lookup_property (to_value a) ''pubkey'' = Some (JStr k)"
    by (simp add: lookup_property_def to_value_def lookup_pubkey key)
  ultimately show False
    using eq first by (simp add: to_value_def)
qed

lemma stable_iff: "stable m \<longleftrightarrow> (\<forall>t. plain t \<longrightarrow> injectEnrichment (injectEnrichment t m) m = injectEnrichment t m)"
proof
  assume "stable m"
  then show "\<forall>t. plain t \<longrightarrow> injectEnrichment (injectEnrichment t m) m = injectEnrichment t m"
    by (simp add: inject_twice_stable)
next
  assume idem: "\<forall>t. plain t \<longrightarrow> injectEnrichment (injectEnrichment t m) m = injectEnrichment t m"
  show "stable m"
    unfolding stable_def
  proof (intro allI impI)
    fix k a assume "m k = Some a"
    then have "injectEnrichment (JStr k) m = to_value a" by (simp add: inject_string_def)
    moreover have "plain (JStr k)" by simp
    ultimately show "injectEnrichment (to_value a) m = to_value a"
      using idem by metis
  qed
qed

section \<open>The classifier\<close>

lemma program_ids_differ: "TOKEN_PROGRAM_ID \<noteq> TOKEN_2022_PROGRAM_ID"
  by (simp add: TOKEN_PROGRAM_ID_def TOKEN_2022_PROGRAM_ID_def)

lemma sint_ucast_byte: "sint (ucast (x :: byte) :: 32 word) = uint x"
proof -
  have "uint x < 2 ^ 8"
    using uint_bounded [of x] by simp
  then have upper: "uint x < 2 ^ 31"
    by simp
  have "- (2 ^ 31) \<le> (0::int)"
    by simp
  also have "0 \<le> uint x"
    by simp
  finally have "signed_take_bit 31 (uint x) = uint x"
    using upper by (rule signed_take_bit_int_eq_self)
  then show ?thesis
    by (simp add: signed_ucast_eq)
qed

lemma read_opt_low:
  assumes "b ! 1 = 0" "b ! 2 = 0" "b ! 3 = 0"
  shows "read_opt b = uint (b ! 0)"
  using assms by (simp add: read_opt_def sint_ucast_byte)

lemma le_u32_low:
  assumes "b ! 1 = 0" "b ! 2 = 0" "b ! 3 = 0"
  shows "le_u32 b = unat (b ! 0)"
  using assms by (simp add: le_u32_def)

lemma mint_option_iff:
  "((read_opt b = 0 \<or> read_opt b = 1) \<and> b ! 1 = 0 \<and> b ! 2 = 0 \<and> b ! 3 = 0)
   \<longleftrightarrow> ((le_u32 b = 0 \<or> le_u32 b = 1) \<and> b ! 1 = 0 \<and> b ! 2 = 0 \<and> b ! 3 = 0)"
proof (cases "b ! 1 = 0 \<and> b ! 2 = 0 \<and> b ! 3 = 0")
  case True
  then have "read_opt b = int (le_u32 b)"
    by (simp add: read_opt_low le_u32_low)
  then show ?thesis by auto
next
  case False
  then show ?thesis by auto
qed

text \<open>
  C2. For every owner and every buffer the classifier gives what the decision table gives:
  an owner that is neither token program is Unclassified; for either program 165 bytes are a
  TokenHolding and 82 bytes a MintRecord; under the fixed-layout program every other length is
  Unclassified; under the extension-capable program fewer than 82 bytes (so 0 bytes) are
  Unclassified, 82 up to 164 bytes a MintRecord, and more than 165 bytes a MintRecord exactly
  when the first four bytes, read as a little-endian unsigned 32-bit number, are 0 or 1 with
  bytes 1, 2, 3 zero, and a TokenHolding otherwise.
\<close>

theorem C2_classify_decision_table: "classify owner b = decision_table owner b"
  using program_ids_differ mint_option_iff [of b]
  by (auto simp: classify_def decision_table_def Let_def)

section \<open>The fields of a holding record\<close>

lemma holding_length: "classify owner b = TokenHolding \<Longrightarrow> 165 \<le> length b"
  by (auto simp: classify_def Let_def split: if_splits)

lemma take_as_nth: "n \<le> length xs \<Longrightarrow> take n xs = map (\<lambda>i. xs ! i) [0..<n]"
  by (simp add: list_eq_iff_nth_eq)

lemma slice_as_nth:
  "k + n \<le> length xs \<Longrightarrow> take n (drop k xs) = map (\<lambda>i. xs ! (k + i)) [0..<n]"
  by (simp add: list_eq_iff_nth_eq)

lemma bn_le_sum: "bn_le bs = (\<Sum>i<length bs. unat (bs ! i) * 256 ^ i)"
proof (induction bs)
  case Nil
  show ?case by (simp add: bn_le_def)
next
  case (Cons b bs)
  have "(\<Sum>i<length (b # bs). unat ((b # bs) ! i) * 256 ^ i)
        = unat b + (\<Sum>i<length bs. unat (bs ! i) * 256 ^ Suc i)"
    by (simp add: sum.lessThan_Suc_shift del: sum.lessThan_Suc)
  also have "\<dots> = unat b + 256 * (\<Sum>i<length bs. unat (bs ! i) * 256 ^ i)"
    by (simp add: sum_distrib_left mult.assoc mult.left_commute)
  finally show ?case using Cons by (simp add: bn_le_def)
qed

lemma bn_le_bound: "bn_le bs < 256 ^ length bs"
proof (induction bs)
  case Nil
  show ?case by (simp add: bn_le_def)
next
  case (Cons b bs)
  have "unat b < 2 ^ LENGTH(8)" by (rule unsigned_less)
  then have "unat b < 256" by simp
  moreover have "bn_le (b # bs) = unat b + 256 * bn_le bs" by (simp add: bn_le_def)
  moreover have "bn_le bs + 1 \<le> 256 ^ length bs" using Cons by simp
  then have "256 * (bn_le bs + 1) \<le> 256 * 256 ^ length bs" by (rule mult_le_mono2)
  ultimately show ?case by simp
qed

lemma sample_holding_kind: "classify TOKEN_PROGRAM_ID sample_holding = TokenHolding"
  by (simp add: classify_def sample_holding_def sample_mint_bytes_def)

lemma sample_holding_amount: "token_amount sample_holding = 250000"
  by (simp add: token_amount_def sample_holding_def sample_mint_bytes_def bn_le_def)

lemma sample_holding_mint: "token_mint sample_holding = sample_mint"
  by (simp add: token_mint_def sample_holding_def sample_mint_bytes_def bs58_encode_def
      be_nat_def b58_digits.simps b58_alphabet_def sample_mint_def)

text \<open>
  C5. In a buffer classified as TokenHolding the bytes 0 to 31 and 64 to 71 exist; the mint is
  the base-58 text of bytes 0 to 31, and the amount is bytes 64 to 71 as a little-endian
  number, below \<open>2 ^ 64\<close> and held in an unbounded integer.
\<close>

theorem C5_holding_fields:
  assumes "classify owner b = TokenHolding"
  shows "token_mint b = bs58_encode (map (\<lambda>i. b ! i) [0..<32])
         \<and> token_amount b = (\<Sum>i<8. unat (b ! (64 + i)) * 256 ^ i)
         \<and> token_amount b < 2 ^ 64"
proof -
  have len: "165 \<le> length b" using assms by (rule holding_length)
  then have m: "take 32 b = map (\<lambda>i. b ! i) [0..<32]"
    by (intro take_as_nth) simp
  have a: "take 8 (drop 64 b) = map (\<lambda>i. b ! (64 + i)) [0..<8]"
    using len by (intro slice_as_nth) simp
  have "token_amount b = (\<Sum>i<8. unat (b ! (64 + i)) * 256 ^ i)"
    unfolding token_amount_def a bn_le_sum by simp
  moreover have "token_amount b < 256 ^ 8"
    unfolding token_amount_def using bn_le_bound [of "take 8 (drop 64 b)"] len by simp
  ultimately show ?thesis by (simp add: token_mint_def m)
qed

theorem C5_holding_fields_witness:
  "classify TOKEN_PROGRAM_ID sample_holding = TokenHolding
   \<and> bs58_encode (map (\<lambda>i. sample_holding ! i) [0..<32]) = sample_mint
   \<and> (\<Sum>i<8. unat (sample_holding ! (64 + i)) * 256 ^ i) = 250000
   \<and> token_amount sample_holding < 2 ^ 64"
  using C5_holding_fields [OF sample_holding_kind]
  by (simp add: sample_holding_kind sample_holding_amount sample_holding_mint)

section \<open>The formatter\<close>

lemma is_digit_digit_char: "d < 10 \<Longrightarrow> is_digit (digit_char d)"
  by (simp add: is_digit_def digit_char_def del: set_simps)

lemma digits_toString: "list_all is_digit (toString n)"
proof (induction n rule: toString.induct)
  case (1 n)
  show ?case
  proof (cases "n < 10")
    case True
    then show ?thesis by (simp add: toString.simps [of n] is_digit_digit_char)
  next
    case False
    with 1 show ?thesis by (simp add: toString.simps [of n] is_digit_digit_char)
  qed
qed

lemma toString_not_empty: "toString n \<noteq> []"
  by (simp add: toString.simps [of n])

lemma dot_not_digit: "\<not> is_digit CHR ''.''"
  by (simp add: is_digit_def)

lemma digit_is_word_char: "is_digit c \<Longrightarrow> is_word_char c"
  by (auto simp: is_digit_def is_word_char_def)

lemma index_of_absent: "x \<notin> set xs \<Longrightarrow> index_of x xs = None"
  by (induction xs) auto

lemma index_of_first: "x \<notin> set xs \<Longrightarrow> index_of x (xs @ x # ys) = Some (length xs)"
  by (induction xs) auto

lemma dot_not_in_digits: "list_all is_digit ds \<Longrightarrow> CHR ''.'' \<notin> set ds"
  using dot_not_digit by (auto simp: list_all_iff)

lemma groups_ahead_digits:
  "list_all is_digit ds \<Longrightarrow> groups_ahead ds = (ds \<noteq> [] \<and> length ds mod 3 = 0)"
proof -
  assume "list_all is_digit ds"
  then have h: "takeWhile is_digit ds = ds"
    by (simp add: list_all_iff)
  show ?thesis unfolding groups_ahead_def Let_def h by auto
qed

lemma not_boundary_digit: "is_digit c \<Longrightarrow> not_boundary prev c = word_before prev"
  by (simp add: not_boundary_def digit_is_word_char)

lemma insert_commas_last_group:
  assumes "list_all is_digit (xs @ ys)" and "length ys = 3"
  shows "insert_commas prev (xs @ ys)
           = insert_commas prev xs @ (if xs \<noteq> [] \<or> word_before prev then '','' else []) @ ys"
  using assms(1)
proof (induction xs arbitrary: prev)
  case Nil
  from assms(2) obtain a b c where ys: "ys = [a, b, c]"
    by (metis length_0_conv length_Suc_conv numeral_3_eq_3)
  with Nil have d: "is_digit a" "is_digit b" "is_digit c" by simp_all
  have g3: "groups_ahead [a, b, c]" and g2: "\<not> groups_ahead [b, c]" and g1: "\<not> groups_ahead [c]"
    using d by (simp_all add: groups_ahead_digits)
  show ?case
    by (simp add: ys g3 g2 g1 not_boundary_digit d)
next
  case (Cons x xs)
  then have dx: "is_digit x" and rest: "list_all is_digit (xs @ ys)" by simp_all
  have ga: "groups_ahead (x # xs @ ys) = groups_ahead (x # xs)"
    using Cons.prems assms(2) by (simp add: groups_ahead_digits; presburger)
  have wb: "word_before (Some x)"
    by (simp add: word_before_def dx digit_is_word_char)
  show ?case
    using Cons.IH [OF rest, of "Some x"] by (simp add: ga wb)
qed

lemma insert_commas_short:
  assumes "list_all is_digit ds" and "length ds \<le> 3"
  shows "insert_commas None ds = ds"
proof -
  consider "ds = []" | a where "ds = [a]" | a b where "ds = [a, b]" | a b c where "ds = [a, b, c]"
    using assms(2)
    by (cases ds; cases "tl ds"; cases "tl (tl ds)"; cases "tl (tl (tl ds))") auto
  then show ?thesis
  proof cases
    case 1 then show ?thesis by simp
  next
    case 2 with assms(1) show ?thesis
      by (simp add: not_boundary_digit word_before_def)
  next
    case 3 with assms(1) show ?thesis
      by (simp add: not_boundary_digit word_before_def groups_ahead_digits)
  next
    case 4 with assms(1) show ?thesis
      by (simp add: not_boundary_digit word_before_def groups_ahead_digits)
  qed
qed

lemma insert_commas_group3: "list_all is_digit ds \<Longrightarrow> insert_commas None ds = group3 ds"
proof (induction ds rule: group3.induct)
  case (1 ds)
  show ?case
  proof (cases "length ds \<le> 3")
    case True
    with 1 show ?thesis by (simp add: insert_commas_short group3.simps [of ds])
  next
    case False
    let ?xs = "take (length ds - 3) ds" and ?ys = "drop (length ds - 3) ds"
    have split: "ds = ?xs @ ?ys" by simp
    have len: "length ?ys = 3" and ne: "?xs \<noteq> []" using False by auto
    have dxs: "list_all is_digit ?xs"
      using "1.prems" by (auto simp: list_all_iff dest: in_set_takeD)
    have "insert_commas None ds = insert_commas None (?xs @ ?ys)"
      by simp
    also have "\<dots> = insert_commas None ?xs @ '','' @ ?ys"
      using insert_commas_last_group [of ?xs ?ys None] "1.prems" len ne by simp
    also have "\<dots> = group3 ?xs @ '','' @ ?ys"
      using "1.IH" [OF False dxs] by simp
    also have "\<dots> = group3 ds"
      using False by (simp add: group3.simps [of ds])
    finally show ?thesis .
  qed
qed

lemma split_at_dot_frac:
  assumes "list_all is_digit ip"
  shows "split_at_dot (ip @ ''.'' @ fp) = (ip, fp)"
  using index_of_first [OF dot_not_in_digits [OF assms], of fp]
  by (simp add: split_at_dot_def)

lemma split_at_dot_none:
  assumes "list_all is_digit ip"
  shows "split_at_dot ip = (ip, [])"
  using index_of_absent [OF dot_not_in_digits [OF assms]]
  by (simp add: split_at_dot_def)

lemma format_balance_spec: "format_balance rawAmount decs = format_spec rawAmount decs"
proof (cases "decs = 0 \<or> fraction_digits rawAmount decs = []")
  case True
  then have "formatAmount rawAmount decs = toString (rawAmount div 10 ^ decs)"
    by (auto simp: formatAmount_def fraction_digits_def Let_def)
  then have "format_balance rawAmount decs = group3 (toString (rawAmount div 10 ^ decs))"
    by (simp add: format_balance_def split_at_dot_none digits_toString insert_commas_group3)
  with True show ?thesis
    by (auto simp: format_spec_def)
next
  case False
  then have "formatAmount rawAmount decs
      = toString (rawAmount div 10 ^ decs) @ ''.'' @ fraction_digits rawAmount decs"
    by (simp add: formatAmount_def fraction_digits_def Let_def)
  then have "format_balance rawAmount decs
      = group3 (toString (rawAmount div 10 ^ decs)) @ ''.'' @ fraction_digits rawAmount decs"
    using False
    by (simp add: format_balance_def split_at_dot_frac digits_toString insert_commas_group3
        del: append.simps)
  with False show ?thesis
    by (simp add: format_spec_def)
qed

lemma length_toString: "n < 10 ^ d \<Longrightarrow> 0 < d \<Longrightarrow> length (toString n) \<le> d"
proof (induction n arbitrary: d rule: toString.induct)
  case (1 n)
  show ?case
  proof (cases "n < 10")
    case True
    with 1 show ?thesis by (simp add: toString.simps [of n])
  next
    case False
    obtain d' where d: "d = Suc d'" using "1.prems"(2) by (cases d) auto
    have "d' \<noteq> 0" using False "1.prems"(1) d by (cases d') auto
    moreover have "n div 10 < 10 ^ d'"
      using "1.prems"(1) d by (simp add: less_mult_imp_div_less mult.commute)
    ultimately have "length (toString (n div 10)) \<le> d'"
      using "1.IH" [OF False] by simp
    then show ?thesis using False d by (simp add: toString.simps [of n])
  qed
qed

lemma padded_length:
  assumes "0 < decs"
  shows "length (padStart decs CHR ''0'' (toString (rawAmount mod 10 ^ decs))) = decs"
proof -
  have "length (toString (rawAmount mod 10 ^ decs)) \<le> decs"
    using assms by (intro length_toString) simp_all
  then show ?thesis by (simp add: padStart_def)
qed



text \<open>
  C4. For every amount and every number of decimals the formatted balance is: with 0 decimals
  the decimal digits of the amount, grouped by a comma every 3 digits from the right; otherwise
  the quotient by \<open>10 ^ decimals\<close> grouped in that way, followed, when the remainder padded
  with zeros on the left (to exactly \<open>decimals\<close> digits) and stripped of its trailing zeros is
  not empty, by a point and that fraction, which is not grouped. In particular the three
  values given.
\<close>

theorem C4_format_balance:
  "format_balance rawAmount decs = format_spec rawAmount decs
   \<and> (0 < decs \<longrightarrow> length (padStart decs CHR ''0'' (toString (rawAmount mod 10 ^ decs))) = decs)
   \<and> format_balance 1234567 2 = ''12,345.67''
   \<and> format_balance 1000000 0 = ''1,000,000''
   \<and> format_balance 100 3 = ''0.1''"
proof -
  have "format_spec 1234567 2 = ''12,345.67''"
    by (simp add: format_spec_def fraction_digits_def padStart_def
        strip_trailing_zeros_def toString.simps group3.simps digit_char_def)
  moreover have "format_spec 1000000 0 = ''1,000,000''"
    by (simp add: format_spec_def toString.simps group3.simps digit_char_def)
  moreover have "format_spec 100 3 = ''0.1''"
    by (simp add: format_spec_def fraction_digits_def padStart_def
        strip_trailing_zeros_def toString.simps group3.simps digit_char_def)
  ultimately show ?thesis
    by (simp add: format_balance_spec padded_length)
qed

theorem C4_format_balance_witness:
  "(0::nat) < 6
   \<and> format_balance 250000 6 = ''0.25''
   \<and> length (padStart 6 CHR ''0'' (toString (250000 mod 10 ^ 6))) = 6"
proof -
  have "format_spec 250000 6 = ''0.25''"
    by (simp add: format_spec_def fraction_digits_def padStart_def
        strip_trailing_zeros_def toString.simps group3.simps digit_char_def)
  then show ?thesis
    using C4_format_balance [of 250000 6] by simp
qed

section \<open>The metadata batches\<close>

lemma concat_slices: "0 < n \<Longrightarrow> concat (slices n xs) = xs"
proof (induction n xs rule: slices.induct)
  case (1 n xs)
  show ?case
  proof (cases "xs = []")
    case True
    then show ?thesis by (subst slices.simps) simp
  next
    case False
    with 1 show ?thesis by (subst slices.simps) simp
  qed
qed

lemma slices_bounds: "b \<in> set (slices n xs) \<Longrightarrow> b \<noteq> [] \<and> length b \<le> n"
proof (induction n xs rule: slices.induct)
  case (1 n xs)
  show ?case
  proof (cases "n = 0 \<or> xs = []")
    case True
    with "1.prems" show ?thesis by (simp add: slices.simps [of n xs])
  next
    case False
    with "1.prems" have "b = take n xs \<or> b \<in> set (slices n (drop n xs))"
      by (simp add: slices.simps [of n xs])
    then show ?thesis using False "1.IH" by auto
  qed
qed

lemma slices_120:
  assumes "length xs = 120"
  shows "map length (slices 50 xs) = [50, 50, 20]"
proof -
  have "slices 50 xs = take 50 xs # slices 50 (drop 50 xs)"
    using assms by (subst slices.simps) auto
  also have "slices 50 (drop 50 xs) = take 50 (drop 50 xs) # slices 50 (drop 50 (drop 50 xs))"
    using assms by (subst slices.simps) auto
  also have "slices 50 (drop 50 (drop 50 xs))
      = take 50 (drop 50 (drop 50 xs)) # slices 50 (drop 50 (drop 50 (drop 50 xs)))"
    using assms by (subst slices.simps) auto
  also have "slices 50 (drop 50 (drop 50 (drop 50 xs))) = []"
    using assms by (subst slices.simps) auto
  finally show ?thesis using assms by simp
qed

lemma store_metadata_fold:
  "foldl (store_metadata data) mp b mt
     = (if mt \<in> set b
        then (case data mt of Some meta \<Rightarrow> Some (mint_info_of mt meta) | None \<Rightarrow> mp mt)
        else mp mt)"
  by (induction b arbitrary: mp) (auto simp: store_metadata_def split: option.splits)

lemma merge_response_lookup:
  "merge_response res b mp mt
     = (if mt \<in> set b then (case batch_entry res mt of Some i \<Rightarrow> Some i | None \<Rightarrow> mp mt) else mp mt)"
  by (cases res)
     (auto simp: merge_response_def batch_entry_def store_metadata_fold split: option.splits)

lemma fetch_batches_requests:
  "metadata_requests (fst (fetch_batches e bs w mp)) = metadata_requests w @ bs
   \<and> account_requests (fst (fetch_batches e bs w mp)) = account_requests w"
  by (induction bs arbitrary: w mp) (simp_all add: Let_def)

lemma fetch_batches_other:
  "mt \<notin> set (concat bs) \<Longrightarrow> snd (fetch_batches e bs w mp) mt = mp mt"
  by (induction bs arbitrary: w mp) (simp_all add: Let_def merge_response_lookup)

lemma fetch_batches_lookup:
  assumes "distinct (concat bs)" and "i < length bs" and "mt \<in> set (bs ! i)"
  shows "snd (fetch_batches e bs w mp) mt
           = (case batch_entry (batch_response e w bs i) mt of Some info \<Rightarrow> Some info | None \<Rightarrow> mp mt)"
  using assms
proof (induction bs arbitrary: w mp i)
  case Nil
  then show ?case by simp
next
  case (Cons b bs)
  show ?case
  proof (cases i)
    case 0
    with Cons.prems have "mt \<in> set b" and "mt \<notin> set (concat bs)" by auto
    then show ?thesis
      using 0 by (simp add: Let_def fetch_batches_other merge_response_lookup batch_response_def)
  next
    case (Suc j)
    with Cons.prems have j: "j < length bs" "mt \<in> set (bs ! j)" and d: "distinct (concat bs)"
      by auto
    then have "mt \<in> set (concat bs)" using nth_mem [of j bs] by auto
    with Cons.prems(1) have nb: "mt \<notin> set b" by auto
    let ?w = "w\<lparr>metadata_requests := metadata_requests w @ [b]\<rparr>"
    let ?mp = "merge_response (fetch_token_metadata e w b) b mp"
    have "snd (fetch_batches e (b # bs) w mp) mt = snd (fetch_batches e bs ?w ?mp) mt"
      by (simp add: Let_def)
    also have "\<dots> = (case batch_entry (batch_response e ?w bs j) mt of
                         Some info \<Rightarrow> Some info | None \<Rightarrow> ?mp mt)"
      by (rule Cons.IH [OF d j])
    also have "?mp mt = mp mt"
      using nb by (simp add: merge_response_lookup)
    also have "batch_response e ?w bs j = batch_response e w (b # bs) i"
      using Suc by (simp add: batch_response_def)
    finally show ?thesis .
  qed
qed

lemma slices_120_list:
  assumes "length xs = 120"
  shows "slices 50 xs = [take 50 xs, take 50 (drop 50 xs), drop 100 xs]"
proof -
  have "slices 50 xs = take 50 xs # slices 50 (drop 50 xs)"
    using assms by (subst slices.simps) auto
  also have "slices 50 (drop 50 xs) = take 50 (drop 50 xs) # slices 50 (drop 50 (drop 50 xs))"
    using assms by (subst slices.simps) auto
  also have "slices 50 (drop 50 (drop 50 xs))
      = take 50 (drop 50 (drop 50 xs)) # slices 50 (drop 50 (drop 50 (drop 50 xs)))"
    using assms by (subst slices.simps) auto
  also have "slices 50 (drop 50 (drop 50 (drop 50 xs))) = []"
    using assms by (subst slices.simps) auto
  finally show ?thesis using assms by simp
qed

section \<open>The loop over the chunks\<close>

lemma identify_account_kind:
  "identify_account infos sc k =
     (case kind_of infos k of
        TokenHolding \<Rightarrow>
          sc\<lparr>tokenAccounts := tokenAccounts sc @ [token_entry infos k],
             uniqueMints := set_add (uniqueMints sc) (ta_mint (token_entry infos k))\<rparr>
      | MintRecord \<Rightarrow>
          sc\<lparr>mintAccounts := mintAccounts sc @ [k], uniqueMints := set_add (uniqueMints sc) k\<rparr>
      | Unclassified \<Rightarrow> sc)"
  by (simp add: identify_account_def kind_of_def token_entry_def Let_def
      split: option.splits account_kind.splits)

lemma set_set_add: "set (set_add xs x) = insert x (set xs)"
  by (auto simp: set_add_def)

lemma identify_fold:
  "tokenAccounts (foldl (identify_account infos) sc chunk)
      = tokenAccounts sc @ map (token_entry infos) (filter (\<lambda>k. kind_of infos k = TokenHolding) chunk)
   \<and> mintAccounts (foldl (identify_account infos) sc chunk)
      = mintAccounts sc @ filter (\<lambda>k. kind_of infos k = MintRecord) chunk
   \<and> set (uniqueMints (foldl (identify_account infos) sc chunk))
      = set (uniqueMints sc)
        \<union> ta_mint ` token_entry infos ` {k \<in> set chunk. kind_of infos k = TokenHolding}
        \<union> {k \<in> set chunk. kind_of infos k = MintRecord}"
proof (induction chunk arbitrary: sc)
  case Nil
  show ?case by simp
next
  case (Cons k chunk)
  have unfold: "foldl (identify_account infos) sc (k # chunk)
      = foldl (identify_account infos) (identify_account infos sc k) chunk"
    by simp
  show ?case
    using Cons [of "identify_account infos sc k"]
    by (cases "kind_of infos k") (auto simp: identify_account_kind set_set_add)
qed

lemma enrich_tokens_lookup:
  "foldl (enrich_token_account gl mp) m tas p = Some a \<Longrightarrow>
     m p = Some a \<or> (\<exists>ta \<in> set tas. ta_pubkey ta = p \<and> a = token_annotation gl mp ta)"
  by (induction tas arbitrary: m) (fastforce simp: enrich_token_account_def split: if_splits)+

lemma enrich_mints_lookup:
  "foldl (enrich_mint_account gl mp) m ks p = Some a \<Longrightarrow>
     m p = Some a \<or> (p \<in> set ks \<and> a = mint_annotation gl mp p)"
  by (induction ks arbitrary: m) (fastforce simp: enrich_mint_account_def split: if_splits)+

lemma token_entry_pubkey: "ta_pubkey (token_entry infos k) = k"
  by (simp add: token_entry_def split: option.splits)

lemma process_chunk_origin:
  assumes "snd (process_chunk e gl (w, m) chunk) p = Some a"
  shows "m p = Some a \<or> (p \<in> set chunk \<and> built_from e gl p a)"
proof -
  define infos where "infos = chunk_infos e w chunk"
  define w1 where "w1 = w\<lparr>account_requests := account_requests w @ [chunk]\<rparr>"
  define sc where "sc = foldl (identify_account infos) empty_scan chunk"
  define mp where "mp = snd (fetch_mint_info e w1 (uniqueMints sc))"
  have tas: "tokenAccounts sc = map (token_entry infos) (filter (\<lambda>k. kind_of infos k = TokenHolding) chunk)"
    and mas: "mintAccounts sc = filter (\<lambda>k. kind_of infos k = MintRecord) chunk"
    and ums: "set (uniqueMints sc)
        = ta_mint ` token_entry infos ` {k \<in> set chunk. kind_of infos k = TokenHolding}
          \<union> {k \<in> set chunk. kind_of infos k = MintRecord}"
    using identify_fold [of infos empty_scan chunk] by (simp_all add: sc_def empty_scan_def)
  show ?thesis
  proof (cases "uniqueMints sc = []")
    case True
    then have "snd (process_chunk e gl (w, m) chunk) = m"
      by (simp add: process_chunk_def Let_def infos_def sc_def)
    with assms show ?thesis by simp
  next
    case False
    then have "snd (process_chunk e gl (w, m) chunk)
        = foldl (enrich_mint_account gl mp)
            (foldl (enrich_token_account gl mp) m (tokenAccounts sc)) (mintAccounts sc)"
      by (simp add: process_chunk_def Let_def infos_def sc_def mp_def w1_def split: prod.splits)
    with assms consider
        (old) "m p = Some a"
      | (tok) ta where "ta \<in> set (tokenAccounts sc)" "ta_pubkey ta = p" "a = token_annotation gl mp ta"
      | (mnt) "p \<in> set (mintAccounts sc)" "a = mint_annotation gl mp p"
      using enrich_mints_lookup enrich_tokens_lookup by metis
    then show ?thesis
    proof cases
      case old
      then show ?thesis by simp
    next
      case tok
      then obtain k where k: "k \<in> set chunk" "kind_of infos k = TokenHolding" "ta = token_entry infos k"
        by (auto simp: tas)
      with tok have "k = p" by (simp add: token_entry_pubkey)
      with k tok have "p \<in> set chunk" "kind_of infos p = TokenHolding"
        "ta_mint (token_entry infos p) \<in> set (uniqueMints sc)"
        "a = token_annotation gl mp (token_entry infos p)"
        by (auto simp: ums)
      then show ?thesis
        unfolding built_from_def infos_def mp_def by blast
    next
      case mnt
      then have "p \<in> set chunk" "kind_of infos p = MintRecord" "p \<in> set (uniqueMints sc)"
        by (auto simp: mas ums)
      with mnt show ?thesis
        unfolding built_from_def infos_def mp_def by blast
    qed
  qed
qed

lemma chunks_origin:
  assumes "snd (foldl (process_chunk e gl) (w, m) chunks) p = Some a"
  shows "m p = Some a \<or> (p \<in> set (concat chunks) \<and> built_from e gl p a)"
  using assms
proof (induction chunks arbitrary: w m)
  case Nil
  then show ?case by simp
next
  case (Cons c chunks)
  obtain w' m' where step: "process_chunk e gl (w, m) c = (w', m')"
    by (cases "process_chunk e gl (w, m) c")
  with Cons.prems have "snd (foldl (process_chunk e gl) (w', m') chunks) p = Some a"
    by simp
  from Cons.IH [OF this] show ?case
  proof
    assume "m' p = Some a"
    then have "snd (process_chunk e gl (w, m) c) p = Some a" by (simp add: step)
    from process_chunk_origin [OF this] show ?thesis by auto
  next
    assume "p \<in> set (concat chunks) \<and> built_from e gl p a"
    then show ?thesis by auto
  qed
qed

lemma enrich_chunks_origin:
  assumes "snd (enrich_chunks e w keys gl) p = Some a"
  shows "p \<in> set keys \<and> built_from e gl p a"
  using chunks_origin [of e gl w Map.empty "slices 100 keys" p a] assms
  by (simp add: enrich_chunks_def concat_slices)

lemma label_address_lookup:
  "label_address g m k p
     = (if p = k
        then (case g p of
                None \<Rightarrow> m p
              | Some l \<Rightarrow>
                  if l = [] then m p
                  else (case m p of
                          None \<Rightarrow> Some (labeled_annotation p l)
                        | Some a \<Rightarrow> Some (a\<lparr>label := Some l\<rparr>)))
        else m p)"
  by (simp add: label_address_def split: option.splits)

lemma label_fold:
  "foldl (label_address g) m ks p
     = (if p \<in> set ks
        then (case g p of
                None \<Rightarrow> m p
              | Some l \<Rightarrow>
                  if l = [] then m p
                  else (case m p of
                          None \<Rightarrow> Some (labeled_annotation p l)
                        | Some a \<Rightarrow> Some (a\<lparr>label := Some l\<rparr>)))
        else m p)"
proof (induction ks arbitrary: m)
  case Nil
  show ?case by simp
next
  case (Cons k ks)
  have unfold: "foldl (label_address g) m (k # ks) = foldl (label_address g) (label_address g m k) ks"
    by simp
  show ?case
    unfolding unfold Cons [of "label_address g m k"]
    by (simp add: label_address_lookup labeled_annotation_def split: option.splits)
qed

section \<open>The annotations of the result\<close>

lemma batch_entry_form: "batch_entry res mt = Some i \<Longrightarrow> \<exists>meta. i = mint_info_of mt meta"
  by (cases res) (auto simp: batch_entry_def split: option.splits if_splits)

lemma fetch_batches_form:
  "snd (fetch_batches e bs w mp) mt = Some i \<Longrightarrow> mp mt = Some i \<or> (\<exists>meta. i = mint_info_of mt meta)"
proof (induction bs arbitrary: w mp)
  case Nil
  then show ?case by simp
next
  case (Cons b bs)
  let ?mp = "merge_response (fetch_token_metadata e w b) b mp"
  from Cons.prems have "snd (fetch_batches e bs (w\<lparr>metadata_requests := metadata_requests w @ [b]\<rparr>) ?mp) mt = Some i"
    by (simp add: Let_def)
  from Cons.IH [OF this] show ?case
    using batch_entry_form [of "fetch_token_metadata e w b" mt i]
    by (auto simp: merge_response_lookup split: if_splits option.splits)
qed

lemma mint_info_form:
  "snd (fetch_mint_info e w mints) mt = Some i \<Longrightarrow> \<exists>meta. i = mint_info_of mt meta"
  using fetch_batches_form [of e "slices 50 mints" w Map.empty mt i]
  by (simp add: fetch_mint_info_def)

lemma token_annotation_fields:
  "pubkey (token_annotation gl mp ta) = ta_pubkey ta
   \<and> etype (token_annotation gl mp ta) = Some Token
   \<and> label (token_annotation gl mp ta) = lookup_label gl (ta_pubkey ta)
   \<and> with_info (ta_mint ta) (resolved_info mp (ta_mint ta)) (token_annotation gl mp ta)"
  by (simp add: token_annotation_def Let_def with_info_def resolved_info_def)

lemma mint_annotation_fields:
  "pubkey (mint_annotation gl mp k) = k
   \<and> etype (mint_annotation gl mp k) = Some Token
   \<and> label (mint_annotation gl mp k) = lookup_label gl k
   \<and> with_info k (resolved_info mp k) (mint_annotation gl mp k)"
  by (simp add: mint_annotation_def Let_def with_info_def resolved_info_def)

lemma built_from_fields:
  assumes "built_from e gl p a"
  shows "pubkey a = p \<and> etype a = Some Token \<and> label a = lookup_label gl p
         \<and> (\<exists>mt w1 mints. mt \<in> set mints
               \<and> with_info mt (resolved_info (snd (fetch_mint_info e w1 mints)) mt) a)"
proof -
  from assms obtain w chunk w1 mints where
    "(kind_of (chunk_infos e w chunk) p = TokenHolding
         \<and> ta_mint (token_entry (chunk_infos e w chunk) p) \<in> set mints
         \<and> a = token_annotation gl (snd (fetch_mint_info e w1 mints))
                 (token_entry (chunk_infos e w chunk) p))
        \<or> (kind_of (chunk_infos e w chunk) p = MintRecord
            \<and> p \<in> set mints
            \<and> a = mint_annotation gl (snd (fetch_mint_info e w1 mints)) p)"
    unfolding built_from_def by blast
  then show ?thesis
  proof
    assume t: "kind_of (chunk_infos e w chunk) p = TokenHolding
         \<and> ta_mint (token_entry (chunk_infos e w chunk) p) \<in> set mints
         \<and> a = token_annotation gl (snd (fetch_mint_info e w1 mints))
                 (token_entry (chunk_infos e w chunk) p)"
    then show ?thesis
      using token_annotation_fields [of gl "snd (fetch_mint_info e w1 mints)"
          "token_entry (chunk_infos e w chunk) p"]
      by (auto simp: token_entry_pubkey)
  next
    assume m: "kind_of (chunk_infos e w chunk) p = MintRecord
            \<and> p \<in> set mints
            \<and> a = mint_annotation gl (snd (fetch_mint_info e w1 mints)) p"
    then show ?thesis
      using mint_annotation_fields [of gl "snd (fetch_mint_info e w1 mints)" p]
      by auto
  qed
qed

lemma resolved_logo: "mi_logoURI (resolved_info (snd (fetch_mint_info e w mints)) mt) = Some (icon_url mt)"
proof (cases "snd (fetch_mint_info e w mints) mt")
  case None
  then show ?thesis by (simp add: resolved_info_def default_info_def)
next
  case (Some i)
  then obtain meta where "i = mint_info_of mt meta" using mint_info_form by blast
  with Some show ?thesis by (simp add: resolved_info_def mint_info_of_def)
qed

lemma enrich_chunks_empty: "enrich_chunks e w [] gl = (w, Map.empty)"
  by (simp add: enrich_chunks_def slices.simps [of 100 "[]"])

lemma final_unlabelled:
  "snd (fetchEnrichmentMap e w keys None) = snd (enrich_chunks e w keys None)"
  by (cases "keys = []")
     (simp_all add: fetchEnrichmentMap_def enrich_chunks_empty split: prod.splits)

lemma final_labelled:
  "snd (fetchEnrichmentMap e w keys (Some g))
     = foldl (label_address g) (snd (enrich_chunks e w keys (Some g))) keys"
  by (cases "keys = []")
     (simp_all add: fetchEnrichmentMap_def enrich_chunks_empty split: prod.splits)

lemma final_unlabelled_origin:
  assumes "snd (fetchEnrichmentMap e w keys None) p = Some a"
  shows "p \<in> set keys \<and> snd (enrich_chunks e w keys None) p = Some a \<and> built_from e None p a"
proof -
  from assms have m0: "snd (enrich_chunks e w keys None) p = Some a"
    by (simp add: final_unlabelled)
  from enrich_chunks_origin [OF m0] m0 show ?thesis by simp
qed

lemma final_labelled_lookup:
  "snd (fetchEnrichmentMap e w keys (Some g)) p
     = (if p \<in> set keys
        then (case g p of
                None \<Rightarrow> snd (enrich_chunks e w keys (Some g)) p
              | Some l \<Rightarrow>
                  if l = [] then snd (enrich_chunks e w keys (Some g)) p
                  else (case snd (enrich_chunks e w keys (Some g)) p of
                          None \<Rightarrow> Some (labeled_annotation p l)
                        | Some a \<Rightarrow> Some (a\<lparr>label := Some l\<rparr>)))
        else snd (enrich_chunks e w keys (Some g)) p)"
  unfolding final_labelled by (rule label_fold)

lemma final_labelled_new:
  assumes "snd (fetchEnrichmentMap e w keys (Some g)) p = Some a"
    and "snd (enrich_chunks e w keys (Some g)) p = None"
  shows "p \<in> set keys \<and> (\<exists>l. g p = Some l \<and> l \<noteq> [] \<and> a = labeled_annotation p l)"
proof -
  have in_keys: "p \<in> set keys"
    using assms by (simp add: final_labelled_lookup split: if_splits)
  obtain l where l: "g p = Some l"
    using assms in_keys by (cases "g p") (simp_all add: final_labelled_lookup)
  have "l \<noteq> []" and "a = labeled_annotation p l"
    using assms in_keys l by (simp_all add: final_labelled_lookup split: if_splits)
  with in_keys l show ?thesis by simp
qed

lemma final_labelled_old:
  assumes "snd (fetchEnrichmentMap e w keys (Some g)) p = Some a"
    and "snd (enrich_chunks e w keys (Some g)) p = Some a0"
  shows "p \<in> set keys \<and> built_from e (Some g) p a0 \<and> (a = a0 \<or> a = a0\<lparr>label := g p\<rparr>)"
proof -
  have o: "p \<in> set keys \<and> built_from e (Some g) p a0"
    using assms(2) by (rule enrich_chunks_origin)
  have "a = a0 \<or> a = a0\<lparr>label := g p\<rparr>"
  proof (cases "g p")
    case None
    then show ?thesis using assms o by (simp add: final_labelled_lookup)
  next
    case (Some l)
    then show ?thesis using assms o by (cases "l = []") (simp_all add: final_labelled_lookup)
  qed
  with o show ?thesis by simp
qed

text \<open>Every annotation of the result is a label for an input address, or was built for one by
  the loop over the chunks (and perhaps given a label afterwards).\<close>

lemma final_origin:
  assumes "snd (fetchEnrichmentMap e w keys gl) p = Some a"
  shows "p \<in> set keys
         \<and> ((\<exists>l. a = labeled_annotation p l)
            \<or> (\<exists>a0 lb. built_from e gl p a0 \<and> a = a0\<lparr>label := lb\<rparr>))"
proof (cases gl)
  case None
  from final_unlabelled_origin [of e w keys p a] assms None
  have "p \<in> set keys" and "built_from e gl p a" by simp_all
  moreover have "a = a\<lparr>label := label a\<rparr>" by simp
  ultimately show ?thesis by (intro conjI disjI2 exI [of _ a] exI [of _ "label a"]) simp_all
next
  case (Some g)
  show ?thesis
  proof (cases "snd (enrich_chunks e w keys (Some g)) p")
    case None
    from final_labelled_new [of e w keys g p a] assms Some None
    obtain l where "p \<in> set keys" and "a = labeled_annotation p l" by auto
    then show ?thesis by (intro conjI disjI1 exI [of _ l]) simp_all
  next
    case m0: (Some a0)
    from final_labelled_old [of e w keys g p a a0] assms Some m0
    have k: "p \<in> set keys" and b: "built_from e gl p a0" and c: "a = a0 \<or> a = a0\<lparr>label := g p\<rparr>"
      by simp_all
    from c show ?thesis
    proof
      assume "a = a0"
      then have "a = a0\<lparr>label := label a0\<rparr>" by simp
      with k b show ?thesis by (intro conjI disjI2 exI [of _ a0] exI [of _ "label a0"]) simp_all
    next
      assume "a = a0\<lparr>label := g p\<rparr>"
      with k b show ?thesis by (intro conjI disjI2 exI [of _ a0] exI [of _ "g p"]) simp_all
    qed
  qed
qed

section \<open>One pass, exactly\<close>

lemma enrich_token_step:
  "enrich_token_account gl mp m (token_entry infos k) = m(k \<mapsto> token_annotation gl mp (token_entry infos k))"
  by (simp add: enrich_token_account_def token_entry_pubkey)

lemma enrich_tokens_exact:
  "foldl (enrich_token_account gl mp) m (map (token_entry infos) ks) p
     = (if p \<in> set ks then Some (token_annotation gl mp (token_entry infos p)) else m p)"
proof (induction ks arbitrary: m)
  case Nil
  show ?case by simp
next
  case (Cons k ks)
  have "foldl (enrich_token_account gl mp) m (map (token_entry infos) (k # ks)) p
      = foldl (enrich_token_account gl mp) (m(k \<mapsto> token_annotation gl mp (token_entry infos k)))
          (map (token_entry infos) ks) p"
    by (simp add: enrich_token_step)
  also have "\<dots> = (if p \<in> set ks then Some (token_annotation gl mp (token_entry infos p))
                    else (m(k \<mapsto> token_annotation gl mp (token_entry infos k))) p)"
    by (rule Cons)
  finally show ?case by simp
qed

lemma enrich_mint_step:
  "enrich_mint_account gl mp m k = m(k \<mapsto> mint_annotation gl mp k)"
  by (simp add: enrich_mint_account_def)

lemma enrich_mints_exact:
  "foldl (enrich_mint_account gl mp) m ks p
     = (if p \<in> set ks then Some (mint_annotation gl mp p) else m p)"
proof (induction ks arbitrary: m)
  case Nil
  show ?case by simp
next
  case (Cons k ks)
  have "foldl (enrich_mint_account gl mp) m (k # ks) p
      = foldl (enrich_mint_account gl mp) (m(k \<mapsto> mint_annotation gl mp k)) ks p"
    by (simp add: enrich_mint_step)
  also have "\<dots> = (if p \<in> set ks then Some (mint_annotation gl mp p)
                    else (m(k \<mapsto> mint_annotation gl mp k)) p)"
    by (rule Cons)
  finally show ?case by simp
qed

lemma process_chunk_exact:
  "snd (process_chunk e gl (w, m) chunk) p
     = (if p \<in> set chunk \<and> kind_of (chunk_infos e w chunk) p \<noteq> Unclassified
        then stored gl
               (snd (fetch_mint_info e (w\<lparr>account_requests := account_requests w @ [chunk]\<rparr>)
                  (uniqueMints (foldl (identify_account (chunk_infos e w chunk)) empty_scan chunk))))
               (chunk_infos e w chunk) p
        else m p)"
proof -
  define infos where "infos = chunk_infos e w chunk"
  define w1 where "w1 = w\<lparr>account_requests := account_requests w @ [chunk]\<rparr>"
  define sc where "sc = foldl (identify_account infos) empty_scan chunk"
  define mp where "mp = snd (fetch_mint_info e w1 (uniqueMints sc))"
  have tas: "tokenAccounts sc = map (token_entry infos) (filter (\<lambda>k. kind_of infos k = TokenHolding) chunk)"
    and mas: "mintAccounts sc = filter (\<lambda>k. kind_of infos k = MintRecord) chunk"
    and ums: "set (uniqueMints sc)
        = ta_mint ` token_entry infos ` {k \<in> set chunk. kind_of infos k = TokenHolding}
          \<union> {k \<in> set chunk. kind_of infos k = MintRecord}"
    using identify_fold [of infos empty_scan chunk] by (simp_all add: sc_def empty_scan_def)
  have folds: "foldl (enrich_mint_account gl mp)
            (foldl (enrich_token_account gl mp) m (tokenAccounts sc)) (mintAccounts sc) p
      = (if p \<in> set chunk \<and> kind_of infos p \<noteq> Unclassified then stored gl mp infos p else m p)"
    unfolding tas mas enrich_mints_exact enrich_tokens_exact
    by (cases "kind_of infos p") (simp_all add: stored_def)
  have "snd (process_chunk e gl (w, m) chunk) p
      = (if p \<in> set chunk \<and> kind_of infos p \<noteq> Unclassified then stored gl mp infos p else m p)"
  proof (cases "uniqueMints sc = []")
    case True
    then have none: "\<not> (p \<in> set chunk \<and> kind_of infos p \<noteq> Unclassified)"
      using ums by (cases "kind_of infos p") auto
    have "snd (process_chunk e gl (w, m) chunk) = m"
      using True by (simp add: process_chunk_def Let_def infos_def sc_def)
    with none show ?thesis by auto
  next
    case False
    then have "snd (process_chunk e gl (w, m) chunk)
        = foldl (enrich_mint_account gl mp)
            (foldl (enrich_token_account gl mp) m (tokenAccounts sc)) (mintAccounts sc)"
      by (simp add: process_chunk_def Let_def infos_def sc_def mp_def w1_def split: prod.splits)
    then show ?thesis by (simp only: folds)
  qed
  then show ?thesis
    by (simp only: infos_def mp_def w1_def sc_def)
qed

lemma process_chunk_untouched:
  "p \<notin> set chunk \<Longrightarrow> snd (process_chunk e gl (w, m) chunk) p = m p"
  by (simp add: process_chunk_exact)

lemma chunks_untouched:
  "p \<notin> set (concat cs) \<Longrightarrow> snd (foldl (process_chunk e gl) (w, m) cs) p = m p"
proof (induction cs arbitrary: w m)
  case Nil
  show ?case by simp
next
  case (Cons c cs)
  obtain w' m' where step: "process_chunk e gl (w, m) c = (w', m')"
    by (cases "process_chunk e gl (w, m) c")
  have "m' p = m p"
    using process_chunk_untouched [of p c e gl w m] Cons.prems by (simp add: step)
  moreover have "snd (foldl (process_chunk e gl) (w', m') cs) p = m' p"
    using Cons.prems by (intro Cons.IH) simp
  ultimately show ?case by (simp add: step)
qed

lemma concat_split_at:
  assumes "j < length cs"
  shows "concat cs = concat (take j cs) @ cs ! j @ concat (drop (Suc j) cs)"
proof -
  have "cs = take j cs @ cs ! j # drop (Suc j) cs"
    using assms by (rule id_take_nth_drop)
  then have "concat cs = concat (take j cs @ cs ! j # drop (Suc j) cs)" by simp
  then show ?thesis by simp
qed

lemma only_one_chunk:
  assumes "distinct (concat cs)" and "j < length cs" and "p \<in> set (cs ! j)"
  shows "p \<notin> set (concat (take j cs)) \<and> p \<notin> set (concat (drop (Suc j) cs))"
proof -
  have "distinct (concat (take j cs) @ cs ! j @ concat (drop (Suc j) cs))"
    using assms(1) concat_split_at [OF assms(2)] by simp
  with assms(3) show ?thesis by auto
qed

lemma pass_start_none:
  assumes "distinct keys" and "j < length (slices 100 keys)" and "p \<in> set (slices 100 keys ! j)"
  shows "snd (pass_state e gl w keys j) p = None"
proof -
  have "distinct (concat (slices 100 keys))" using assms(1) by (simp add: concat_slices)
  from only_one_chunk [OF this assms(2,3)]
  have "p \<notin> set (concat (take j (slices 100 keys)))" by simp
  then show ?thesis
    unfolding pass_state_def by (simp add: chunks_untouched)
qed

lemma chunk_phase_exact:
  assumes "distinct keys" and "j < length (slices 100 keys)" and "p \<in> set (slices 100 keys ! j)"
  shows "snd (enrich_chunks e w keys gl) p
           = stored gl (pass_metadata e gl w keys j) (pass_infos e gl w keys j) p"
proof -
  let ?cs = "slices 100 keys"
  obtain w0 m0 where st: "pass_state e gl w keys j = (w0, m0)"
    by (cases "pass_state e gl w keys j")
  have "distinct (concat ?cs)" using assms(1) by (simp add: concat_slices)
  from only_one_chunk [OF this assms(2,3)]
  have later: "p \<notin> set (concat (drop (Suc j) ?cs))" by simp
  have start: "m0 p = None"
    using pass_start_none [OF assms, of e gl w] by (simp add: st)
  have "?cs = take j ?cs @ ?cs ! j # drop (Suc j) ?cs"
    using assms(2) by (rule id_take_nth_drop)
  then have "enrich_chunks e w keys gl
      = foldl (process_chunk e gl) (w, Map.empty) (take j ?cs @ ?cs ! j # drop (Suc j) ?cs)"
    unfolding enrich_chunks_def by simp
  also have "\<dots> = foldl (process_chunk e gl) (process_chunk e gl (w0, m0) (?cs ! j)) (drop (Suc j) ?cs)"
    using st by (simp add: pass_state_def)
  finally have "snd (enrich_chunks e w keys gl) p = snd (process_chunk e gl (w0, m0) (?cs ! j)) p"
    using chunks_untouched [OF later, of e gl "fst (process_chunk e gl (w0, m0) (?cs ! j))"
        "snd (process_chunk e gl (w0, m0) (?cs ! j))"]
    by simp
  also have "\<dots> = stored gl (pass_metadata e gl w keys j) (pass_infos e gl w keys j) p"
    using assms(3) start
    by (simp add: process_chunk_exact stored_def pass_metadata_def pass_infos_def pass_mints_def
        pass_world_def st)
  finally show ?thesis .
qed

lemma distinct_set_add: "distinct xs \<Longrightarrow> distinct (set_add xs x)"
  by (simp add: set_add_def)

lemma identify_account_distinct:
  "distinct (uniqueMints sc) \<Longrightarrow> distinct (uniqueMints (identify_account infos sc k))"
  by (cases "kind_of infos k") (simp_all add: identify_account_kind distinct_set_add)

lemma identify_fold_distinct:
  "distinct (uniqueMints sc) \<Longrightarrow> distinct (uniqueMints (foldl (identify_account infos) sc chunk))"
proof (induction chunk arbitrary: sc)
  case Nil
  then show ?case by simp
next
  case (Cons k chunk)
  have "distinct (uniqueMints (identify_account infos sc k))"
    using Cons.prems by (rule identify_account_distinct)
  then have "distinct (uniqueMints (foldl (identify_account infos) (identify_account infos sc k) chunk))"
    by (rule Cons.IH)
  then show ?case by simp
qed

lemma pass_mints_distinct: "distinct (pass_mints e gl w keys j)"
  unfolding pass_mints_def by (rule identify_fold_distinct) (simp add: empty_scan_def)

lemma pass_mints_holding:
  assumes "p \<in> set (slices 100 keys ! j)" and "kind_of (pass_infos e gl w keys j) p = TokenHolding"
  shows "ta_mint (token_entry (pass_infos e gl w keys j) p) \<in> set (pass_mints e gl w keys j)"
  using assms identify_fold [of "pass_infos e gl w keys j" empty_scan "slices 100 keys ! j"]
  by (simp add: pass_mints_def empty_scan_def)

lemma pass_mints_mint:
  assumes "p \<in> set (slices 100 keys ! j)" and "kind_of (pass_infos e gl w keys j) p = MintRecord"
  shows "p \<in> set (pass_mints e gl w keys j)"
  using assms identify_fold [of "pass_infos e gl w keys j" empty_scan "slices 100 keys ! j"]
  by (simp add: pass_mints_def empty_scan_def)

lemma batch_of_mint:
  assumes "mt \<in> set mints"
  shows "\<exists>i < length (slices 50 mints). mt \<in> set (slices 50 mints ! i)"
proof -
  have "mt \<in> set (concat (slices 50 mints))" using assms by (simp add: concat_slices)
  then obtain b where "b \<in> set (slices 50 mints)" "mt \<in> set b" by auto
  then show ?thesis by (auto simp: in_set_conv_nth)
qed

lemma mint_info_batch:
  assumes "distinct mints" and "i < length (slices 50 mints)" and "mt \<in> set (slices 50 mints ! i)"
  shows "snd (fetch_mint_info e w mints) mt = batch_entry (batch_response e w (slices 50 mints) i) mt"
proof -
  have "distinct (concat (slices 50 mints))" using assms(1) by (simp add: concat_slices)
  from fetch_batches_lookup [OF this assms(2,3), of e w Map.empty]
  show ?thesis by (cases "batch_entry (batch_response e w (slices 50 mints) i) mt")
      (simp_all add: fetch_mint_info_def)
qed

lemma batch_entry_payload:
  "res = Json True (Some data) \<Longrightarrow> data mt = Some meta \<Longrightarrow> batch_entry res mt = Some (mint_info_of mt meta)"
  by (simp add: batch_entry_def)

lemma stored_fields:
  assumes "stored gl mp infos p = Some a"
  shows "pubkey a = p \<and> etype a = Some Token \<and> label a = lookup_label gl p
         \<and> (\<exists>mt. with_info mt (resolved_info mp mt) a
               \<and> (kind_of infos p = TokenHolding \<and> mt = ta_mint (token_entry infos p)
                  \<or> kind_of infos p = MintRecord \<and> mt = p))"
proof (cases "kind_of infos p")
  case TokenHolding
  with assms have "a = token_annotation gl mp (token_entry infos p)" by (simp add: stored_def)
  then show ?thesis
    using token_annotation_fields [of gl mp "token_entry infos p"] TokenHolding
    by (auto simp: token_entry_pubkey)
next
  case MintRecord
  with assms have "a = mint_annotation gl mp p" by (simp add: stored_def)
  then show ?thesis
    using mint_annotation_fields [of gl mp p] MintRecord by auto
next
  case Unclassified
  with assms show ?thesis by (simp add: stored_def)
qed

lemma slice_of_member:
  assumes "0 < n" and "x \<in> set xs"
  shows "\<exists>i < length (slices n xs). x \<in> set (slices n xs ! i)"
proof -
  have "x \<in> set (concat (slices n xs))" using assms by (simp add: concat_slices)
  then obtain b where "b \<in> set (slices n xs)" "x \<in> set b" by auto
  then show ?thesis by (auto simp: in_set_conv_nth)
qed

lemma fetchEnrichmentMap_carries_key: "carries_key (snd (fetchEnrichmentMap e w keys gl))"
  unfolding carries_key_def
proof (intro allI impI)
  fix k a assume "snd (fetchEnrichmentMap e w keys gl) k = Some a"
  from final_origin [OF this]
  consider l where "a = labeled_annotation k l"
    | a0 lb where "built_from e gl k a0" "a = a0\<lparr>label := lb\<rparr>"
    by blast
  then show "pubkey a = k"
  proof cases
    case 1
    then show ?thesis by (simp add: labeled_annotation_def)
  next
    case 2
    from built_from_fields [OF 2(1)] have "pubkey a0 = k" by simp
    with 2(2) show ?thesis by simp
  qed
qed

lemma final_token_from_chunks:
  assumes "snd (fetchEnrichmentMap e w keys gl) p = Some a" and "etype a = Some Token"
  shows "\<exists>a0 lb. snd (enrich_chunks e w keys gl) p = Some a0 \<and> a = a0\<lparr>label := lb\<rparr>"
proof (cases gl)
  case None
  with assms(1) have "snd (enrich_chunks e w keys gl) p = Some a" by (simp add: final_unlabelled)
  moreover have "a = a\<lparr>label := label a\<rparr>" by simp
  ultimately show ?thesis by blast
next
  case (Some g)
  show ?thesis
  proof (cases "snd (enrich_chunks e w keys (Some g)) p")
    case None
    from final_labelled_new [OF assms(1) [unfolded Some] None]
    obtain l where "a = labeled_annotation p l" by blast
    with assms(2) show ?thesis by (simp add: labeled_annotation_def)
  next
    case s: (Some a0)
    from final_labelled_old [OF assms(1) [unfolded Some] s]
    have "a = a0 \<or> a = a0\<lparr>label := g p\<rparr>" by simp
    then have "a = a0\<lparr>label := label a0\<rparr> \<or> a = a0\<lparr>label := g p\<rparr>" by simp
    with s Some show ?thesis by blast
  qed
qed

lemma with_info_label: "with_info mt i (a\<lparr>label := lb\<rparr>) = with_info mt i a"
  by (simp add: with_info_def)

lemma final_in_keys: "snd (fetchEnrichmentMap e w keys gl) p = Some a \<Longrightarrow> p \<in> set keys"
  using final_origin [of e w keys gl p a] by simp

lemma chunk_subset_keys:
  assumes "j < length (slices 100 keys)" and "p \<in> set (slices 100 keys ! j)"
  shows "p \<in> set keys"
proof -
  have "slices 100 keys ! j \<in> set (slices 100 keys)" using assms(1) by simp
  with assms(2) have "p \<in> set (concat (slices 100 keys))" by auto
  then show ?thesis by (simp add: concat_slices)
qed

section \<open>The sample data\<close>

lemma garbled_fails: "atob ''!!!'' = None"
  by (simp add: atob_def strip_padding_def is_ascii_whitespace_def b64_alphabet_def Let_def)

lemma zeros_32: "replicate 32 (0::byte) = [0, 0, 0, 0, 0, 0, 0, 0, 0, 0, 0, 0, 0, 0, 0, 0, 0, 0, 0, 0, 0, 0, 0, 0, 0, 0, 0, 0, 0, 0, 0, 0]"
  by (simp add: numeral_eq_Suc)

lemma zeros_93: "replicate 93 (0::byte) = [0, 0, 0, 0, 0, 0, 0, 0, 0, 0, 0, 0, 0, 0, 0, 0, 0, 0, 0, 0, 0, 0, 0, 0, 0, 0, 0, 0, 0, 0, 0, 0, 0, 0, 0, 0, 0, 0, 0, 0, 0, 0, 0, 0, 0, 0, 0, 0, 0, 0, 0, 0, 0, 0, 0, 0, 0, 0, 0, 0, 0, 0, 0, 0, 0, 0, 0, 0, 0, 0, 0, 0, 0, 0, 0, 0, 0, 0, 0, 0, 0, 0, 0, 0, 0, 0, 0, 0, 0, 0, 0, 0, 0]"
  by (simp add: numeral_eq_Suc)

lemma sample_decodes: "base64ToBytes sample_holding_base64 = sample_holding"
  unfolding sample_holding_def zeros_32 zeros_93
  by (simp add: base64ToBytes_def atob_def sample_holding_base64_def strip_padding_def
      is_ascii_whitespace_def b64_alphabet_def sample_mint_bytes_def Let_def)

lemma sample_map_address:
  "sample_map sample_address = Some (labeled_annotation sample_address ''Treasury'')"
  by (simp add: sample_map_def)

lemma sample_map_wrapped: "sample_map wrapped_leaf = None"
  by (simp add: sample_map_def wrapped_leaf_def sample_address_def)

lemma sample_map_hello: "sample_map ''hello'' = None"
  by (simp add: sample_map_def sample_address_def)

lemma match_wrapped_leaf: "match_wrapped wrapped_leaf = Some sample_address"
  by (simp add: wrapped_leaf_def sample_address_def is_line_terminator_def)

lemma carries_key_sample: "carries_key sample_map"
  by (simp add: carries_key_def sample_map_def labeled_annotation_def)

lemma plain_sample: "plain sample_tree"
  by (simp add: sample_tree_def own_order_def put_def key_precedes_def
      not_index_if_no_digit is_digit_def)

lemma proto_tree_rebuilt:
  "stripEnrichment (injectEnrichment proto_tree sample_map) = JObj None [(''a'', JStr ''y'')]"
  by (simp add: proto_tree_def rebuild_def assign_def put_def is_object_def inject_string_def
      sample_map_def sample_address_def is_enriched_def lookup_property_def)

lemma alias_leaf:
  "s \<noteq> ''treasury'' \<Longrightarrow> match_wrapped s = None \<Longrightarrow> inject_string s alias_map = JStr s"
  by (simp add: inject_string_def alias_map_def)

lemma stable_alias: "stable alias_map"
  unfolding stable_def
proof (intro allI impI)
  fix k a assume "alias_map k = Some a"
  then have a: "a = labeled_annotation sample_address ''Treasury''"
    by (simp add: alias_map_def split: if_splits)
  have "injectEnrichment (to_value a) alias_map
      = JObj None (map (map_prod id (\<lambda>v. injectEnrichment v alias_map)) (annotation_props a))"
    using plain_to_value [of a] unfolding to_value_def by (rule inject_plain_object)
  also have "\<dots> = JObj None (annotation_props a)"
    by (simp add: a annotation_props_def own_field_def labeled_annotation_def type_string_def
        alias_leaf sample_address_def)
  finally show "injectEnrichment (to_value a) alias_map = to_value a"
    by (simp add: to_value_def)
qed

lemma one_slice: "0 < n \<Longrightarrow> xs \<noteq> [] \<Longrightarrow> length xs \<le> n \<Longrightarrow> slices n xs = [xs]"
  by (simp add: slices.simps [of n xs] slices.simps [of n "[]"])

lemma sample_keys_distinct: "distinct sample_keys"
  by (simp add: sample_keys_def sample_address_def treasury_address_def garbled_address_def)

lemma sample_chunks: "slices 100 sample_keys = [sample_keys]"
  by (rule one_slice) (simp_all add: sample_keys_def)

lemma sample_kind_holding: "kind_of sample_accounts sample_address = TokenHolding"
  by (simp add: kind_of_def sample_accounts_def sample_decodes sample_holding_kind)

lemma sample_kind_treasury: "kind_of sample_accounts treasury_address = Unclassified"
  by (simp add: kind_of_def sample_accounts_def treasury_address_def sample_address_def
      garbled_address_def)

lemma sample_kind_garbled: "kind_of sample_accounts garbled_address = Unclassified"
  by (simp add: kind_of_def sample_accounts_def garbled_address_def sample_address_def
      base64ToBytes_def garbled_fails classify_def)

lemma sample_entry:
  "token_entry sample_accounts sample_address
     = \<lparr>ta_pubkey = sample_address, ta_mint = sample_mint, ta_amount = 250000\<rparr>"
  by (simp add: token_entry_def sample_accounts_def sample_decodes sample_holding_mint
      sample_holding_amount)

lemma sample_scan:
  "uniqueMints (foldl (identify_account sample_accounts) empty_scan sample_keys) = [sample_mint]"
  by (simp add: sample_keys_def identify_account_kind sample_kind_holding sample_kind_treasury
      sample_kind_garbled sample_entry empty_scan_def set_add_def)

text \<open>A run on the sample keys, for any service that returns the sample accounts.\<close>

lemma sample_pass:
  assumes "fetchAccountInfo e = (\<lambda>w chunk. AccountValue sample_accounts)"
  shows "pass_infos e gl sample_world sample_keys 0 = sample_accounts"
    and "pass_mints e gl sample_world sample_keys 0 = [sample_mint]"
    and "pass_world e gl sample_world sample_keys 0
           = \<lparr>account_requests = [sample_keys], metadata_requests = []\<rparr>"
proof -
  show i: "pass_infos e gl sample_world sample_keys 0 = sample_accounts"
    by (simp add: pass_infos_def chunk_infos_def assms)
  show "pass_mints e gl sample_world sample_keys 0 = [sample_mint]"
    by (simp add: pass_mints_def i sample_chunks sample_scan)
  show "pass_world e gl sample_world sample_keys 0
           = \<lparr>account_requests = [sample_keys], metadata_requests = []\<rparr>"
    by (simp add: pass_world_def pass_state_def sample_chunks sample_world_def)
qed

lemma sample_batches: "slices 50 [sample_mint] = [[sample_mint]]"
  by (rule one_slice) simp_all

lemma sample_metadata:
  "snd (fetch_mint_info e w [sample_mint]) sample_mint
     = batch_entry (fetch_token_metadata e w [sample_mint]) sample_mint"
  using mint_info_batch [of "[sample_mint]" 0 sample_mint e w]
  by (simp add: sample_batches batch_response_def)

lemma sample_chunk_phase:
  assumes "fetchAccountInfo e = (\<lambda>w chunk. AccountValue sample_accounts)"
  shows "snd (enrich_chunks e sample_world sample_keys gl) sample_address
           = Some (token_annotation gl (pass_metadata e gl sample_world sample_keys 0)
                     \<lparr>ta_pubkey = sample_address, ta_mint = sample_mint, ta_amount = 250000\<rparr>)"
    and "snd (enrich_chunks e sample_world sample_keys gl) treasury_address = None"
    and "snd (enrich_chunks e sample_world sample_keys gl) garbled_address = None"
    and "pass_metadata e gl sample_world sample_keys 0 sample_mint
           = batch_entry (fetch_token_metadata e
               \<lparr>account_requests = [sample_keys], metadata_requests = []\<rparr> [sample_mint]) sample_mint"
proof -
  have j: "0 < length (slices 100 sample_keys)" by (simp add: sample_chunks)
  have mem: "sample_address \<in> set (slices 100 sample_keys ! 0)"
    "treasury_address \<in> set (slices 100 sample_keys ! 0)"
    "garbled_address \<in> set (slices 100 sample_keys ! 0)"
    unfolding sample_chunks by (simp_all add: sample_keys_def)
  show "snd (enrich_chunks e sample_world sample_keys gl) sample_address
           = Some (token_annotation gl (pass_metadata e gl sample_world sample_keys 0)
                     \<lparr>ta_pubkey = sample_address, ta_mint = sample_mint, ta_amount = 250000\<rparr>)"
    using chunk_phase_exact [OF sample_keys_distinct j mem(1), of e sample_world gl]
    by (simp add: sample_pass [OF assms] stored_def sample_kind_holding sample_entry)
  show "snd (enrich_chunks e sample_world sample_keys gl) treasury_address = None"
    using chunk_phase_exact [OF sample_keys_distinct j mem(2), of e sample_world gl]
    by (simp add: sample_pass [OF assms] stored_def sample_kind_treasury)
  show "snd (enrich_chunks e sample_world sample_keys gl) garbled_address = None"
    using chunk_phase_exact [OF sample_keys_distinct j mem(3), of e sample_world gl]
    by (simp add: sample_pass [OF assms] stored_def sample_kind_garbled)
  show "pass_metadata e gl sample_world sample_keys 0 sample_mint
           = batch_entry (fetch_token_metadata e
               \<lparr>account_requests = [sample_keys], metadata_requests = []\<rparr> [sample_mint]) sample_mint"
    by (simp add: pass_metadata_def sample_pass [OF assms] sample_metadata)
qed

lemma sample_balance: "format_balance 250000 6 = ''0.25''"
  by (simp add: format_balance_spec format_spec_def fraction_digits_def padStart_def
      strip_trailing_zeros_def toString.simps group3.simps digit_char_def)

lemma sample_balance_whole: "format_balance 250000 0 = ''250,000''"
  by (simp add: format_balance_spec format_spec_def fraction_digits_def padStart_def
      strip_trailing_zeros_def toString.simps group3.simps digit_char_def)

lemma sample_env_accounts: "fetchAccountInfo sample_env = (\<lambda>w chunk. AccountValue sample_accounts)"
  by (simp add: sample_env_def)

lemma nameless_env_accounts: "fetchAccountInfo nameless_env = (\<lambda>w chunk. AccountValue sample_accounts)"
  by (simp add: nameless_env_def)

lemma sample_env_metadata:
  "fetch_token_metadata sample_env w req = Json True (Some [sample_mint \<mapsto> sample_meta])"
  by (simp add: sample_env_def)

lemma nameless_env_metadata:
  "fetch_token_metadata nameless_env w req = Json True (Some [sample_mint \<mapsto> nameless_meta])"
  by (simp add: nameless_env_def)

lemma address_facts:
  "sample_address \<noteq> treasury_address" "sample_address \<noteq> garbled_address"
  "treasury_address \<noteq> garbled_address"
  by (simp_all add: sample_address_def treasury_address_def garbled_address_def)

lemma sample_keys_members:
  "sample_address \<in> set sample_keys" "treasury_address \<in> set sample_keys"
  "garbled_address \<in> set sample_keys"
  by (simp_all add: sample_keys_def)

lemma sample_chunk_annotation:
  "snd (enrich_chunks sample_env sample_world sample_keys (Some sample_labels)) sample_address
     = Some sample_annotation"
  by (simp add: sample_chunk_phase [OF sample_env_accounts] token_annotation_def Let_def
      sample_env_metadata batch_entry_def mint_info_of_def sample_meta_def sample_balance
      icon_url_def lookup_label_def sample_labels_def address_facts sample_annotation_def)

lemma sample_final_annotation:
  "snd (fetchEnrichmentMap sample_env sample_world sample_keys (Some sample_labels)) sample_address
     = Some sample_annotation"
  by (simp add: final_labelled_lookup sample_keys_members sample_chunk_annotation
      sample_labels_def address_facts sample_annotation_def)

lemma sample_label_facts:
  "sample_labels treasury_address = Some ''Treasury''"
  "sample_labels garbled_address = Some ''Broken''"
  "sample_labels sample_address = Some ''Hot wallet''"
  using address_facts by (auto simp: sample_labels_def)

lemma sample_mints_length: "length sample_mints = 120"
  by (simp add: sample_mints_def)

lemma sample_mints_distinct: "distinct sample_mints"
  by (simp add: sample_mints_def distinct_map inj_on_def)

lemma sample_mints_batches:
  "slices 50 sample_mints
     = [take 50 sample_mints, take 50 (drop 50 sample_mints), drop 100 sample_mints]"
  by (rule slices_120_list [OF sample_mints_length])

lemma sample_mints_nth: "i < 120 \<Longrightarrow> sample_mints ! i = replicate (Suc i) CHR ''1''"
  unfolding sample_mints_def by (simp del: replicate_Suc upt_rec_numeral)

lemma first_mint: "replicate (Suc 0) CHR ''1'' \<in> set (slices 50 sample_mints ! 0)"
proof -
  have "take 50 sample_mints ! 0 = replicate (Suc 0) CHR ''1''"
    using sample_mints_nth [of 0] by simp
  moreover have "0 < length (take 50 sample_mints)"
    by (simp add: sample_mints_length)
  ultimately have "replicate (Suc 0) CHR ''1'' \<in> set (take 50 sample_mints)"
    by (metis nth_mem)
  then show ?thesis by (simp only: sample_mints_batches nth_Cons_0)
qed

lemma last_mint: "replicate (Suc 119) CHR ''1'' \<in> set (slices 50 sample_mints ! 2)"
proof -
  have "drop 100 sample_mints ! 19 = sample_mints ! (100 + 19)"
    by (rule nth_drop) (simp add: sample_mints_length)
  then have "drop 100 sample_mints ! 19 = replicate (Suc 119) CHR ''1''"
    using sample_mints_nth [of 119] by (simp del: replicate_Suc)
  moreover have "19 < length (drop 100 sample_mints)"
    by (simp add: sample_mints_length)
  ultimately have "replicate (Suc 119) CHR ''1'' \<in> set (drop 100 sample_mints)"
    by (metis nth_mem)
  moreover have "slices 50 sample_mints ! 2 = drop 100 sample_mints"
    by (simp add: sample_mints_batches)
  ultimately show ?thesis by (simp only:)
qed

lemma flaky_first:
  "batch_entry (batch_response flaky_env sample_world (slices 50 sample_mints) 0) mt
     = Some (mint_info_of mt sample_meta)"
proof -
  have "length (slices 50 sample_mints ! 0) = 50"
    by (simp add: sample_mints_batches sample_mints_length)
  then show ?thesis
    by (simp add: batch_response_def flaky_env_def batch_entry_def)
qed

lemma flaky_last:
  "batch_entry (batch_response flaky_env sample_world (slices 50 sample_mints) 2) mt = None"
proof -
  have "length (slices 50 sample_mints ! 2) = 20"
    by (simp add: sample_mints_batches sample_mints_length)
  then show ?thesis
    by (simp add: batch_response_def flaky_env_def batch_entry_def)
qed

lemma blank_chunk_phase:
  "snd (enrich_chunks sample_env sample_world sample_keys (Some blank_labels)) treasury_address = None"
  by (rule sample_chunk_phase [OF sample_env_accounts])

section \<open>The round trip, the batches and the builder\<close>

text \<open>
  C1, as the specification states it: strip after inject restores every leaf that was a key of
  the map and leaves every other leaf unchanged. It fails on a leaf that is not a key but holds
  a key in parentheses at its end: inject replaces that leaf too, and strip returns the bare
  address. It also fails on an object with an own property named \<^verbatim>\<open>__proto__\<close>: the
  assignment \<^verbatim>\<open>newObj[key] = ...\<close> in the loops of inject and strip reaches the setter
  of \<^verbatim>\<open>Object.prototype\<close>, and the property is lost.
\<close>

theorem C1_wrapped_leaf_counterexample:
  "sample_map wrapped_leaf = None
   \<and> stripEnrichment (injectEnrichment (JStr wrapped_leaf) sample_map) = JStr sample_address
   \<and> JStr sample_address \<noteq> JStr wrapped_leaf
   \<and> stripEnrichment (injectEnrichment proto_tree sample_map) = JObj None [(''a'', JStr ''y'')]
   \<and> JObj None [(''a'', JStr ''y'')] \<noteq> proto_tree"
proof -
  have "injectEnrichment (JStr wrapped_leaf) sample_map
          = to_value (labeled_annotation sample_address ''Treasury'')"
    by (simp add: inject_string_def sample_map_wrapped match_wrapped_leaf sample_map_address)
  moreover have "pubkey (labeled_annotation sample_address ''Treasury'') = sample_address"
    by (simp add: labeled_annotation_def)
  moreover have "sample_address \<noteq> wrapped_leaf"
    by (simp add: wrapped_leaf_def sample_address_def)
  ultimately have leaf: "stripEnrichment (injectEnrichment (JStr wrapped_leaf) sample_map) = JStr sample_address
      \<and> JStr sample_address \<noteq> JStr wrapped_leaf"
    by (simp add: strip_to_value)
  have "JObj None [(''a'', JStr ''y'')] \<noteq> proto_tree"
    by (simp add: proto_tree_def)
  with leaf sample_map_wrapped proto_tree_rebuilt show ?thesis
    by (intro conjI) simp_all
qed

text \<open>
  C1, amended. Let every annotation of the map \<open>m\<close> have its own key as \<open>pubkey\<close>, as
  every map that \<^verbatim>\<open>fetchEnrichmentMap\<close> returns has (the last conjunct), and let \<open>t\<close> be
  a plain tree: every object in it has the prototype \<^verbatim>\<open>Object.prototype\<close> and no own
  property named \<^verbatim>\<open>__proto__\<close>. Then \<open>strip (inject t m)\<close> is \<open>restored m t\<close>: the
  tree \<open>t\<close> in which

  \<^item> a string leaf that is a key of \<open>m\<close> is itself;

  \<^item> a string leaf \<open>s\<close> that is not a key, and in which the pattern
    \<^verbatim>\<open>/\((.*)\)$/\<close> captures \<open>g\<close>, is \<open>g\<close> when \<open>g\<close> is a key of \<open>m\<close> and \<open>s\<close>
    when it is not; the pattern matches when \<open>s\<close> ends in \<^verbatim>\<open>)\<close> and has a
    \<^verbatim>\<open>(\<close> with no line break between the two, and \<open>g\<close> is the text between the
    leftmost such \<^verbatim>\<open>(\<close> and the last character of \<open>s\<close>;

  \<^item> a string leaf that is not a key and that the pattern does not match is itself, and so is
    every leaf that is not a string;

  \<^item> an object that had the shape of an annotation already (\<^verbatim>\<open>__isEnriched\<close> is
    \<^verbatim>\<open>true\<close> and there is a \<^verbatim>\<open>pubkey\<close>) is what inject makes of its
    \<^verbatim>\<open>pubkey\<close> value.
\<close>

theorem C1_strip_inject_restores:
  "(carries_key m \<longrightarrow> plain t \<longrightarrow> stripEnrichment (injectEnrichment t m) = restored m t)
   \<and> (m s \<noteq> None \<longrightarrow> restored_leaf m s = s)
   \<and> (m s = None \<longrightarrow> match_wrapped s = Some g \<longrightarrow> m g \<noteq> None \<longrightarrow> restored_leaf m s = g)
   \<and> (m s = None \<longrightarrow> match_wrapped s = Some g \<longrightarrow> m g = None \<longrightarrow> restored_leaf m s = s)
   \<and> (m s = None \<longrightarrow> match_wrapped s = None \<longrightarrow> restored_leaf m s = s)
   \<and> carries_key (snd (fetchEnrichmentMap e w keys gl))"
proof (intro conjI impI)
  assume "carries_key m" and "plain t"
  then show "stripEnrichment (injectEnrichment t m) = restored m t" by (rule strip_inject)
next
  assume "m s \<noteq> None"
  then show "restored_leaf m s = s" by (simp add: restored_leaf_def)
next
  assume "m s = None" and "match_wrapped s = Some g" and "m g \<noteq> None"
  then show "restored_leaf m s = g" by (simp add: restored_leaf_def)
next
  assume "m s = None" and "match_wrapped s = Some g" and "m g = None"
  then show "restored_leaf m s = s" by (simp add: restored_leaf_def)
next
  assume "m s = None" and "match_wrapped s = None"
  then show "restored_leaf m s = s" by (simp add: restored_leaf_def)
next
  show "carries_key (snd (fetchEnrichmentMap e w keys gl))"
    by (rule fetchEnrichmentMap_carries_key)
qed

text \<open>
  The sample tree comes back as it was, and beside an ordinary text a leaf that wraps the key
  comes back as the key.
\<close>

theorem C1_strip_inject_restores_witness:
  "carries_key sample_map \<and> plain sample_tree
   \<and> stripEnrichment (injectEnrichment sample_tree sample_map) = sample_tree
   \<and> stripEnrichment (injectEnrichment (JArr [JStr wrapped_leaf, JStr ''hello'']) sample_map)
       = JArr [JStr sample_address, JStr ''hello'']"
proof -
  have r1: "restored_leaf sample_map sample_address = sample_address"
    by (simp add: restored_leaf_def sample_map_address)
  have r2: "restored_leaf sample_map ''hello'' = ''hello''"
    by (simp add: restored_leaf_def sample_map_hello)
  have r3: "restored_leaf sample_map wrapped_leaf = sample_address"
    by (simp add: restored_leaf_def sample_map_wrapped match_wrapped_leaf sample_map_address)
  have e: "\<not> is_enriched sample_tree"
    by (simp add: is_enriched_def lookup_property_def sample_tree_def)
  have "restored sample_map sample_tree = sample_tree"
    using e by (simp add: sample_tree_def r1 r2)
  then have "stripEnrichment (injectEnrichment sample_tree sample_map) = sample_tree"
    using C1_strip_inject_restores [of sample_map sample_tree] carries_key_sample plain_sample
    by simp
  moreover have "stripEnrichment (injectEnrichment (JArr [JStr wrapped_leaf, JStr ''hello'']) sample_map)
       = JArr [JStr sample_address, JStr ''hello'']"
    using C1_strip_inject_restores [of sample_map "JArr [JStr wrapped_leaf, JStr ''hello'']"]
      carries_key_sample
    by (simp add: r2 r3)
  ultimately show ?thesis
    by (simp add: carries_key_sample plain_sample)
qed

text \<open>
  C3, as the specification states it: inject is idempotent. It fails on the tree that is one
  address: the second pass goes into the annotation the first pass put there and replaces its
  \<open>pubkey\<close>, a key of the map, by the annotation again.
\<close>

theorem C3_inject_twice_counterexample:
  "injectEnrichment (injectEnrichment (JStr sample_address) sample_map) sample_map
     \<noteq> injectEnrichment (JStr sample_address) sample_map"
  using inject_twice_differs [OF carries_key_sample sample_map_address] .

text \<open>
  C3, amended. Inject is idempotent on all plain trees exactly for the maps \<open>m\<close> that are
  stable: inject with \<open>m\<close> leaves the object of every annotation of \<open>m\<close> as it is. A map
  whose annotations have their own key as \<open>pubkey\<close> is not idempotent at any of its keys:
  for every key \<open>k\<close> of it, a second inject changes what the first made of the leaf \<open>k\<close>.
  Every map that \<^verbatim>\<open>fetchEnrichmentMap\<close> returns is such a map (the last conjunct).
\<close>

theorem C3_inject_twice:
  "(stable m \<longleftrightarrow> (\<forall>t. plain t \<longrightarrow> injectEnrichment (injectEnrichment t m) m = injectEnrichment t m))
   \<and> (carries_key m \<longrightarrow> m k = Some a \<longrightarrow>
        injectEnrichment (injectEnrichment (JStr k) m) m \<noteq> injectEnrichment (JStr k) m)
   \<and> carries_key (snd (fetchEnrichmentMap e w keys gl))"
  using stable_iff [of m] inject_twice_differs [of m k a]
    fetchEnrichmentMap_carries_key [of e w keys gl]
  by blast

text \<open>
  A map from an alias is stable, and a second inject changes nothing on a tree with the
  alias; the sample map has its key as \<open>pubkey\<close>, and a second inject changes the result on
  that key.
\<close>

theorem C3_inject_twice_witness:
  "stable alias_map \<and> plain (JArr [JStr ''treasury'', JStr ''hello''])
   \<and> injectEnrichment (injectEnrichment (JArr [JStr ''treasury'', JStr ''hello'']) alias_map) alias_map
       = injectEnrichment (JArr [JStr ''treasury'', JStr ''hello'']) alias_map
   \<and> injectEnrichment (JArr [JStr ''treasury'', JStr ''hello'']) alias_map
       = JArr [to_value (labeled_annotation sample_address ''Treasury''), JStr ''hello'']
   \<and> carries_key sample_map
   \<and> injectEnrichment (injectEnrichment (JStr sample_address) sample_map) sample_map
       \<noteq> injectEnrichment (JStr sample_address) sample_map"
proof -
  have p: "plain (JArr [JStr ''treasury'', JStr ''hello''])" by simp
  have "injectEnrichment (injectEnrichment (JArr [JStr ''treasury'', JStr ''hello'']) alias_map) alias_map
       = injectEnrichment (JArr [JStr ''treasury'', JStr ''hello'']) alias_map"
    using C3_inject_twice [of alias_map] stable_alias p by blast
  moreover have "injectEnrichment (JArr [JStr ''treasury'', JStr ''hello'']) alias_map
       = JArr [to_value (labeled_annotation sample_address ''Treasury''), JStr ''hello'']"
    by (simp add: inject_string_def alias_map_def)
  moreover have "injectEnrichment (injectEnrichment (JStr sample_address) sample_map) sample_map
       \<noteq> injectEnrichment (JStr sample_address) sample_map"
    using C3_inject_twice [of sample_map sample_address "labeled_annotation sample_address ''Treasury''"]
      carries_key_sample sample_map_address by blast
  ultimately show ?thesis
    using stable_alias p carries_key_sample by (intro conjI)
qed

text \<open>
  C6. The mints go to the metadata service in batches: the batches are the list cut into
  consecutive pieces, none empty and none longer than 50; one request is issued for each
  batch, in order, and no other; 120 mints make three batches, of 50, 50 and 20. For distinct
  mints, the merged map has for a mint of batch \<open>i\<close> exactly what the response to batch
  \<open>i\<close> contributes for it, and nothing for a mint that was not asked for. A response
  contributes nothing when the call throws, when it is not \<^verbatim>\<open>ok\<close>, when its body cannot
  be read, and when the body lacks \<^verbatim>\<open>success\<close> or \<^verbatim>\<open>data\<close>; otherwise it
  contributes the entry made from \<^verbatim>\<open>data[mint]\<close>, when there is one. The fetch is a total
  function: no failure of a batch reaches its caller.
\<close>

theorem C6_metadata_batches:
  assumes "distinct mints"
  shows "concat (slices 50 mints) = mints
    \<and> (\<forall>b \<in> set (slices 50 mints). 0 < length b \<and> length b \<le> 50)
    \<and> metadata_requests (fst (fetch_mint_info e w mints)) = metadata_requests w @ slices 50 mints
    \<and> (length mints = 120 \<longrightarrow> map length (slices 50 mints) = [50, 50, 20])
    \<and> (\<forall>i mt. i < length (slices 50 mints) \<longrightarrow> mt \<in> set (slices 50 mints ! i) \<longrightarrow>
          snd (fetch_mint_info e w mints) mt = batch_entry (batch_response e w (slices 50 mints) i) mt)
    \<and> (\<forall>mt. mt \<notin> set mints \<longrightarrow> snd (fetch_mint_info e w mints) mt = None)
    \<and> batch_entry FetchThrows mt = None \<and> batch_entry NotOk mt = None
    \<and> batch_entry JsonThrows mt = None \<and> batch_entry (Json False body) mt = None
    \<and> batch_entry (Json True None) mt = None
    \<and> batch_entry (Json True (Some data)) mt = map_option (mint_info_of mt) (data mt)"
proof -
  have c: "concat (slices 50 mints) = mints" by (simp add: concat_slices)
  have "distinct (concat (slices 50 mints))" using assms c by simp
  then have "\<forall>i mt. i < length (slices 50 mints) \<longrightarrow> mt \<in> set (slices 50 mints ! i) \<longrightarrow>
          snd (fetch_mint_info e w mints) mt = batch_entry (batch_response e w (slices 50 mints) i) mt"
    by (auto simp: fetch_mint_info_def fetch_batches_lookup split: option.splits)
  moreover have "\<forall>b \<in> set (slices 50 mints). 0 < length b \<and> length b \<le> 50"
    using slices_bounds [of _ 50 mints] by auto
  moreover have "\<forall>mt. mt \<notin> set mints \<longrightarrow> snd (fetch_mint_info e w mints) mt = None"
    by (simp add: fetch_mint_info_def fetch_batches_other c)
  moreover have "batch_entry FetchThrows mt = None \<and> batch_entry NotOk mt = None
    \<and> batch_entry JsonThrows mt = None \<and> batch_entry (Json False body) mt = None
    \<and> batch_entry (Json True None) mt = None
    \<and> batch_entry (Json True (Some data)) mt = map_option (mint_info_of mt) (data mt)"
    by (cases body) (simp_all add: batch_entry_def)
  ultimately show ?thesis
    using c by (simp add: fetch_mint_info_def fetch_batches_requests slices_120)
qed

text \<open>
  120 mints and a service that fails for a batch of fewer than 50: three requests, an entry
  for the first mint, none for the last.
\<close>

theorem C6_metadata_batches_witness:
  "distinct sample_mints \<and> length sample_mints = 120
   \<and> map length (slices 50 sample_mints) = [50, 50, 20]
   \<and> metadata_requests (fst (fetch_mint_info flaky_env sample_world sample_mints))
       = slices 50 sample_mints
   \<and> snd (fetch_mint_info flaky_env sample_world sample_mints) (replicate (Suc 0) CHR ''1'')
       = Some (mint_info_of (replicate (Suc 0) CHR ''1'') sample_meta)
   \<and> snd (fetch_mint_info flaky_env sample_world sample_mints) (replicate (Suc 119) CHR ''1'')
       = None"
proof -
  note c6 = C6_metadata_batches [OF sample_mints_distinct, of flaky_env sample_world]
  note sizes = c6 [THEN conjunct2, THEN conjunct2, THEN conjunct2, THEN conjunct1]
  note requests = c6 [THEN conjunct2, THEN conjunct2, THEN conjunct1]
  note entry = c6 [THEN conjunct2, THEN conjunct2, THEN conjunct2, THEN conjunct2,
      THEN conjunct1, rule_format]
  have len: "0 < length (slices 50 sample_mints)" "2 < length (slices 50 sample_mints)"
    by (simp_all add: sample_mints_batches)
  have "map length (slices 50 sample_mints) = [50, 50, 20]"
    using sizes sample_mints_length by simp
  moreover have "metadata_requests (fst (fetch_mint_info flaky_env sample_world sample_mints))
       = slices 50 sample_mints"
    using requests by (simp add: sample_world_def)
  moreover have "snd (fetch_mint_info flaky_env sample_world sample_mints) (replicate (Suc 0) CHR ''1'')
       = batch_entry (batch_response flaky_env sample_world (slices 50 sample_mints) 0)
           (replicate (Suc 0) CHR ''1'')"
    using len(1) first_mint by (rule entry)
  moreover have "snd (fetch_mint_info flaky_env sample_world sample_mints) (replicate (Suc 119) CHR ''1'')
       = batch_entry (batch_response flaky_env sample_world (slices 50 sample_mints) 2)
           (replicate (Suc 119) CHR ''1'')"
    using len(2) last_mint by (rule entry)
  ultimately show ?thesis
    by (simp only: flaky_first flaky_last sample_mints_distinct sample_mints_length simp_thms)
qed

text \<open>
  C7, as the specification states it: a mint that is present in the response takes its symbol
  from the payload. It fails for a payload whose symbol is the empty string:
  \<^verbatim>\<open>meta.symbol || "Unknown"\<close> is \<^verbatim>\<open>"Unknown"\<close>.
\<close>

theorem C7_empty_symbol_counterexample:
  "fetch_token_metadata nameless_env
       \<lparr>account_requests = [sample_keys], metadata_requests = []\<rparr> [sample_mint]
     = Json True (Some [sample_mint \<mapsto> nameless_meta])
   \<and> meta_symbol nameless_meta = Some ''''
   \<and> snd (fetchEnrichmentMap nameless_env sample_world sample_keys None) sample_address
       = Some (sample_annotation\<lparr>symbol := Some ''Unknown'', label := None\<rparr>)"
proof -
  have "snd (fetchEnrichmentMap nameless_env sample_world sample_keys None) sample_address
       = Some (sample_annotation\<lparr>symbol := Some ''Unknown'', label := None\<rparr>)"
    by (simp add: final_unlabelled sample_chunk_phase [OF nameless_env_accounts]
        token_annotation_def Let_def nameless_env_metadata batch_entry_def mint_info_of_def
        nameless_meta_def sample_balance icon_url_def lookup_label_def sample_annotation_def)
  then show ?thesis
    by (simp add: nameless_env_metadata) (simp add: nameless_meta_def)
qed

text \<open>
  C7, amended. Let the keys be distinct, and let the result have for the address \<open>p\<close> an
  annotation \<open>a\<close> of the type \<^verbatim>\<open>token\<close>. Then \<open>p\<close> is in a chunk \<open>j\<close> of the keys,
  and the mint of \<open>a\<close> is a mint \<open>mt\<close> of a batch \<open>i\<close> of the mints found in that
  chunk. The \<^verbatim>\<open>logoURI\<close> of \<open>a\<close> is the icon base followed by \<^verbatim>\<open>/<mt>.png\<close>,
  whatever the service answers. When the response to that batch contributes nothing for
  \<open>mt\<close>, the symbol is \<^verbatim>\<open>Unknown\<close>, the decimals are 0 and there is no name. When the
  response has \<^verbatim>\<open>success\<close> and a \<^verbatim>\<open>data\<close> object with a payload for \<open>mt\<close>, the
  symbol is that of the payload, or \<^verbatim>\<open>Unknown\<close> when the payload has none or the empty
  string; the decimals are those of the payload, or 0 when it has none; and the name is that
  of the payload.
\<close>

theorem C7_token_metadata:
  assumes "distinct keys"
    and "snd (fetchEnrichmentMap e w keys gl) p = Some a" and "etype a = Some Token"
  shows "\<exists>j mt i.
      j < length (slices 100 keys) \<and> p \<in> set (slices 100 keys ! j)
      \<and> i < length (slices 50 (pass_mints e gl w keys j))
      \<and> mt \<in> set (slices 50 (pass_mints e gl w keys j) ! i)
      \<and> mint a = Some mt
      \<and> logoURI a = Some (SUPABASE_TOKEN_ICON_URL @ ''/'' @ mt @ ''.png'')
      \<and> (batch_entry (batch_response e (pass_world e gl w keys j)
                        (slices 50 (pass_mints e gl w keys j)) i) mt = None
           \<longrightarrow> symbol a = Some ''Unknown'' \<and> decimals a = Some 0 \<and> name a = None)
      \<and> (\<forall>data meta.
            batch_response e (pass_world e gl w keys j) (slices 50 (pass_mints e gl w keys j)) i
              = Json True (Some data)
            \<longrightarrow> data mt = Some meta
            \<longrightarrow> symbol a = Some (case meta_symbol meta of
                                    None \<Rightarrow> ''Unknown''
                                  | Some s \<Rightarrow> if s = [] then ''Unknown'' else s)
                \<and> decimals a = Some (case meta_decimals meta of None \<Rightarrow> 0 | Some d \<Rightarrow> d)
                \<and> name a = meta_name meta)"
proof -
  from final_in_keys [OF assms(2)] have "p \<in> set keys" .
  with slice_of_member [of 100 p keys]
  obtain j where j: "j < length (slices 100 keys)" "p \<in> set (slices 100 keys ! j)" by auto
  let ?infos = "pass_infos e gl w keys j"
  let ?mints = "pass_mints e gl w keys j"
  let ?mp = "pass_metadata e gl w keys j"
  from final_token_from_chunks [OF assms(2,3)]
  obtain a0 lb where c: "snd (enrich_chunks e w keys gl) p = Some a0" and a: "a = a0\<lparr>label := lb\<rparr>"
    by blast
  from chunk_phase_exact [OF assms(1) j, of e w gl] c
  have st: "stored gl ?mp ?infos p = Some a0" by simp
  from stored_fields [OF st]
  obtain mt where wi0: "with_info mt (resolved_info ?mp mt) a0"
    and k: "kind_of ?infos p = TokenHolding \<and> mt = ta_mint (token_entry ?infos p)
            \<or> kind_of ?infos p = MintRecord \<and> mt = p"
    by blast
  have wi: "with_info mt (resolved_info ?mp mt) a"
    using wi0 by (simp add: a with_info_label)
  have mem: "mt \<in> set ?mints"
    using k pass_mints_holding [OF j(2), of e gl w] pass_mints_mint [OF j(2), of e gl w] by auto
  from batch_of_mint [OF mem]
  obtain i where i: "i < length (slices 50 ?mints)" "mt \<in> set (slices 50 ?mints ! i)" by blast
  let ?r = "batch_response e (pass_world e gl w keys j) (slices 50 ?mints) i"
  have mp: "?mp mt = batch_entry ?r mt"
    using mint_info_batch [OF pass_mints_distinct i, of e "pass_world e gl w keys j"]
    by (simp add: pass_metadata_def)
  have logo: "logoURI a = Some (SUPABASE_TOKEN_ICON_URL @ ''/'' @ mt @ ''.png'')"
    using wi resolved_logo [of e "pass_world e gl w keys j" ?mints mt]
    by (simp add: with_info_def pass_metadata_def icon_url_def)
  have absent: "batch_entry ?r mt = None
      \<longrightarrow> symbol a = Some ''Unknown'' \<and> decimals a = Some 0 \<and> name a = None"
    using wi mp by (simp add: with_info_def resolved_info_def default_info_def)
  have present: "\<forall>data meta. ?r = Json True (Some data) \<longrightarrow> data mt = Some meta
      \<longrightarrow> symbol a = Some (case meta_symbol meta of
                              None \<Rightarrow> ''Unknown''
                            | Some s \<Rightarrow> if s = [] then ''Unknown'' else s)
          \<and> decimals a = Some (case meta_decimals meta of None \<Rightarrow> 0 | Some d \<Rightarrow> d)
          \<and> name a = meta_name meta"
  proof (intro allI impI)
    fix data meta assume "?r = Json True (Some data)" and "data mt = Some meta"
    then have "batch_entry ?r mt = Some (mint_info_of mt meta)" by (rule batch_entry_payload)
    with mp have "resolved_info ?mp mt = mint_info_of mt meta" by (simp add: resolved_info_def)
    with wi show "symbol a = Some (case meta_symbol meta of
                              None \<Rightarrow> ''Unknown''
                            | Some s \<Rightarrow> if s = [] then ''Unknown'' else s)
          \<and> decimals a = Some (case meta_decimals meta of None \<Rightarrow> 0 | Some d \<Rightarrow> d)
          \<and> name a = meta_name meta"
      by (simp add: with_info_def mint_info_of_def split: option.splits)
  qed
  have m: "mint a = Some mt" using wi by (simp add: with_info_def)
  show ?thesis
    by (intro exI [of _ j] exI [of _ mt] exI [of _ i] conjI j i m logo absent present)
qed

text \<open>
  The sample holding, with the service that knows its mint as USDC.
\<close>

theorem C7_token_metadata_witness:
  "distinct sample_keys
   \<and> snd (fetchEnrichmentMap sample_env sample_world sample_keys (Some sample_labels)) sample_address
       = Some sample_annotation
   \<and> etype sample_annotation = Some Token
   \<and> logoURI sample_annotation = Some (SUPABASE_TOKEN_ICON_URL @ ''/'' @ sample_mint @ ''.png'')
   \<and> symbol sample_annotation = Some ''USDC''
   \<and> decimals sample_annotation = Some 6
   \<and> name sample_annotation = Some ''USD Coin''"
proof -
  let ?gl = "Some sample_labels"
  have t: "etype sample_annotation = Some Token" by (simp add: sample_annotation_def)
  from C7_token_metadata [OF sample_keys_distinct sample_final_annotation t]
  obtain j mt i where j: "j < length (slices 100 sample_keys)"
    and i: "i < length (slices 50 (pass_mints sample_env ?gl sample_world sample_keys j))"
    and m: "mint sample_annotation = Some mt"
    and logo: "logoURI sample_annotation = Some (SUPABASE_TOKEN_ICON_URL @ ''/'' @ mt @ ''.png'')"
    and payload: "\<And>data meta.
        batch_response sample_env (pass_world sample_env ?gl sample_world sample_keys j)
            (slices 50 (pass_mints sample_env ?gl sample_world sample_keys j)) i
          = Json True (Some data)
        \<Longrightarrow> data mt = Some meta
        \<Longrightarrow> symbol sample_annotation
              = Some (case meta_symbol meta of
                        None \<Rightarrow> ''Unknown''
                      | Some s \<Rightarrow> if s = [] then ''Unknown'' else s)
            \<and> decimals sample_annotation = Some (case meta_decimals meta of None \<Rightarrow> 0 | Some d \<Rightarrow> d)
            \<and> name sample_annotation = meta_name meta"
    by blast
  have j0: "j = 0" using j by (simp add: sample_chunks)
  have mt: "mt = sample_mint" using m by (simp add: sample_annotation_def)
  have r: "batch_response sample_env (pass_world sample_env ?gl sample_world sample_keys j)
            (slices 50 (pass_mints sample_env ?gl sample_world sample_keys j)) i
          = Json True (Some [sample_mint \<mapsto> sample_meta])"
    by (simp add: batch_response_def sample_env_metadata)
  have "[sample_mint \<mapsto> sample_meta] mt = Some sample_meta" by (simp add: mt)
  from payload [OF r this] logo
  have "logoURI sample_annotation = Some (SUPABASE_TOKEN_ICON_URL @ ''/'' @ sample_mint @ ''.png'')
   \<and> symbol sample_annotation = Some ''USDC''
   \<and> decimals sample_annotation = Some 6
   \<and> name sample_annotation = Some ''USD Coin''"
    by (simp add: mt sample_meta_def)
  with sample_keys_distinct sample_final_annotation t show ?thesis by (intro conjI) simp_all
qed

text \<open>
  C8, as the specification states it: an input address with no token annotation for which the
  lookup returns a label gets a labeled annotation. It fails when the label returned is the
  empty string: \<^verbatim>\<open>if (label)\<close> is false for it, and the address stays without an entry.
\<close>

theorem C8_empty_label_counterexample:
  "treasury_address \<in> set sample_keys
   \<and> blank_labels treasury_address = Some ''''
   \<and> snd (enrich_chunks sample_env sample_world sample_keys (Some blank_labels)) treasury_address = None
   \<and> snd (fetchEnrichmentMap sample_env sample_world sample_keys (Some blank_labels)) treasury_address
       = None"
  by (simp add: final_labelled_lookup sample_keys_members blank_chunk_phase blank_labels_def)

text \<open>
  C8, amended. Let \<open>p\<close> be an input address. If the lookup returns the non-empty label
  \<open>l\<close> for \<open>p\<close> and the loop over the chunks has stored nothing for \<open>p\<close>, the result
  has for \<open>p\<close> the labeled annotation with the \<open>pubkey\<close> \<open>p\<close> and the label \<open>l\<close>. If
  the lookup returns the non-empty label \<open>l\<close> and the loop has stored the annotation \<open>a\<close>,
  which is then of the type \<^verbatim>\<open>token\<close>, the result has for \<open>p\<close> the annotation \<open>a\<close> with
  \<open>l\<close> as its label: the entry is kept, and only its label is set. If the lookup returns
  nothing or the empty string, the result has for \<open>p\<close> what the loop has stored, if anything.
\<close>

theorem C8_labels:
  assumes "p \<in> set keys"
  shows "(g p = Some l \<longrightarrow> l \<noteq> [] \<longrightarrow> snd (enrich_chunks e w keys (Some g)) p = None \<longrightarrow>
            snd (fetchEnrichmentMap e w keys (Some g)) p = Some (labeled_annotation p l)
            \<and> pubkey (labeled_annotation p l) = p \<and> label (labeled_annotation p l) = Some l
            \<and> etype (labeled_annotation p l) = Some Labeled)
         \<and> (g p = Some l \<longrightarrow> l \<noteq> [] \<longrightarrow>
              (\<forall>a. snd (enrich_chunks e w keys (Some g)) p = Some a \<longrightarrow>
                 snd (fetchEnrichmentMap e w keys (Some g)) p = Some (a\<lparr>label := Some l\<rparr>)
                 \<and> etype a = Some Token))
         \<and> (g p = None \<or> g p = Some [] \<longrightarrow>
              snd (fetchEnrichmentMap e w keys (Some g)) p
                = snd (enrich_chunks e w keys (Some g)) p)"
proof (intro conjI impI allI)
  assume "g p = Some l" and "l \<noteq> []" and "snd (enrich_chunks e w keys (Some g)) p = None"
  then show "snd (fetchEnrichmentMap e w keys (Some g)) p = Some (labeled_annotation p l)"
    using assms by (simp add: final_labelled_lookup)
next
  fix a
  assume "g p = Some l" and "l \<noteq> []" and m0: "snd (enrich_chunks e w keys (Some g)) p = Some a"
  then show "snd (fetchEnrichmentMap e w keys (Some g)) p = Some (a\<lparr>label := Some l\<rparr>)"
    using assms by (simp add: final_labelled_lookup)
  from enrich_chunks_origin [OF m0] have "built_from e (Some g) p a" by simp
  from built_from_fields [OF this] show "etype a = Some Token" by simp
next
  assume "g p = None \<or> g p = Some []"
  then show "snd (fetchEnrichmentMap e w keys (Some g)) p = snd (enrich_chunks e w keys (Some g)) p"
    using assms by (auto simp: final_labelled_lookup)
qed (simp_all add: labeled_annotation_def)

text \<open>
  The sample labels: the treasury gets a labeled annotation, the holding keeps its token
  annotation with the label; without a label the holding keeps what the loop has stored.
\<close>

theorem C8_labels_witness:
  "treasury_address \<in> set sample_keys
   \<and> sample_labels treasury_address = Some ''Treasury''
   \<and> snd (enrich_chunks sample_env sample_world sample_keys (Some sample_labels)) treasury_address = None
   \<and> snd (fetchEnrichmentMap sample_env sample_world sample_keys (Some sample_labels)) treasury_address
       = Some (labeled_annotation treasury_address ''Treasury'')
   \<and> sample_address \<in> set sample_keys
   \<and> sample_labels sample_address = Some ''Hot wallet''
   \<and> snd (enrich_chunks sample_env sample_world sample_keys (Some sample_labels)) sample_address
       = Some sample_annotation
   \<and> snd (fetchEnrichmentMap sample_env sample_world sample_keys (Some sample_labels)) sample_address
       = Some (sample_annotation\<lparr>label := Some ''Hot wallet''\<rparr>)
   \<and> blank_labels sample_address = None
   \<and> snd (fetchEnrichmentMap sample_env sample_world sample_keys (Some blank_labels)) sample_address
       = snd (enrich_chunks sample_env sample_world sample_keys (Some blank_labels)) sample_address"
proof -
  have c: "snd (enrich_chunks sample_env sample_world sample_keys (Some sample_labels)) treasury_address = None"
    by (rule sample_chunk_phase [OF sample_env_accounts])
  have "snd (fetchEnrichmentMap sample_env sample_world sample_keys (Some sample_labels)) treasury_address
       = Some (labeled_annotation treasury_address ''Treasury'')"
    using C8_labels [where p = treasury_address and keys = sample_keys and g = sample_labels
        and l = "''Treasury''" and e = sample_env and w = sample_world]
      sample_keys_members(2) sample_label_facts(1) c
    by simp
  moreover have "snd (fetchEnrichmentMap sample_env sample_world sample_keys (Some sample_labels)) sample_address
       = Some (sample_annotation\<lparr>label := Some ''Hot wallet''\<rparr>)"
    using C8_labels [where p = sample_address and keys = sample_keys and g = sample_labels
        and l = "''Hot wallet''" and e = sample_env and w = sample_world]
      sample_keys_members(1) sample_label_facts(3) sample_chunk_annotation
    by simp
  moreover have b: "blank_labels sample_address = None"
    using address_facts by (simp add: blank_labels_def)
  moreover have "snd (fetchEnrichmentMap sample_env sample_world sample_keys (Some blank_labels)) sample_address
       = snd (enrich_chunks sample_env sample_world sample_keys (Some blank_labels)) sample_address"
    using C8_labels [where p = sample_address and keys = sample_keys and g = blank_labels
        and e = sample_env and w = sample_world]
      sample_keys_members(1) b
    by simp
  ultimately show ?thesis
    using c sample_chunk_annotation sample_keys_members sample_label_facts by (intro conjI) simp_all
qed

text \<open>
  C9. Let the keys be distinct, \<open>p\<close> an address of the chunk \<open>j\<close>, and let the account
  lookup of that pass return for \<open>p\<close> an account whose data \<^verbatim>\<open>atob\<close> rejects. Then
  \<^verbatim>\<open>base64ToBytes\<close> yields the empty buffer, which the classifier leaves Unclassified; the
  loop over the chunks stores no annotation for \<open>p\<close>; and the result has for \<open>p\<close> only what
  the labels give: nothing, or a labeled annotation when the lookup returns a non-empty
  label. The build is a total function: the failed decoding reaches no caller.
\<close>

theorem C9_undecodable_payload:
  assumes "distinct keys" and "j < length (slices 100 keys)" and "p \<in> set (slices 100 keys ! j)"
    and "pass_infos e gl w keys j p = Some info" and "atob (info_data info) = None"
  shows "base64ToBytes (info_data info) = []
    \<and> classify (info_owner info) (base64ToBytes (info_data info)) = Unclassified
    \<and> snd (enrich_chunks e w keys gl) p = None
    \<and> snd (fetchEnrichmentMap e w keys gl) p
        = (case lookup_label gl p of
             None \<Rightarrow> None
           | Some l \<Rightarrow> if l = [] then None else Some (labeled_annotation p l))"
proof -
  have b: "base64ToBytes (info_data info) = []"
    using assms(5) by (simp add: base64ToBytes_def)
  have cl: "classify (info_owner info) (base64ToBytes (info_data info)) = Unclassified"
    by (simp add: b classify_def)
  have "kind_of (pass_infos e gl w keys j) p = Unclassified"
    using assms(4) cl by (simp add: kind_of_def)
  with chunk_phase_exact [OF assms(1-3), of e w gl]
  have c: "snd (enrich_chunks e w keys gl) p = None" by (simp add: stored_def)
  have pk: "p \<in> set keys" using assms(2,3) by (rule chunk_subset_keys)
  have "snd (fetchEnrichmentMap e w keys gl) p
        = (case lookup_label gl p of
             None \<Rightarrow> None
           | Some l \<Rightarrow> if l = [] then None else Some (labeled_annotation p l))"
  proof (cases gl)
    case None
    with c show ?thesis by (simp add: final_unlabelled lookup_label_def)
  next
    case (Some g)
    with c pk show ?thesis
      by (simp add: final_labelled_lookup lookup_label_def split: option.splits)
  qed
  with b cl c show ?thesis by simp
qed

text \<open>
  The sample address whose account data is \<^verbatim>\<open>!!!\<close>.
\<close>

theorem C9_undecodable_payload_witness:
  "distinct sample_keys
   \<and> garbled_address \<in> set (slices 100 sample_keys ! 0)
   \<and> pass_infos sample_env (Some sample_labels) sample_world sample_keys 0 garbled_address
       = Some \<lparr>info_owner = TOKEN_PROGRAM_ID, info_data = ''!!!''\<rparr>
   \<and> atob ''!!!'' = None
   \<and> snd (enrich_chunks sample_env sample_world sample_keys (Some sample_labels)) garbled_address = None
   \<and> snd (fetchEnrichmentMap sample_env sample_world sample_keys (Some sample_labels)) garbled_address
       = Some (labeled_annotation garbled_address ''Broken'')"
proof -
  have j: "0 < length (slices 100 sample_keys)" by (simp add: sample_chunks)
  have p: "garbled_address \<in> set (slices 100 sample_keys ! 0)"
    unfolding sample_chunks by (simp add: sample_keys_members)
  have i: "pass_infos sample_env (Some sample_labels) sample_world sample_keys 0 garbled_address
       = Some \<lparr>info_owner = TOKEN_PROGRAM_ID, info_data = ''!!!''\<rparr>"
    using address_facts by (simp add: sample_pass [OF sample_env_accounts] sample_accounts_def)
  have a: "atob (info_data \<lparr>info_owner = TOKEN_PROGRAM_ID, info_data = ''!!!''\<rparr>) = None"
    by (simp add: garbled_fails)
  from C9_undecodable_payload [OF sample_keys_distinct j p i a]
  have "snd (enrich_chunks sample_env sample_world sample_keys (Some sample_labels)) garbled_address = None
   \<and> snd (fetchEnrichmentMap sample_env sample_world sample_keys (Some sample_labels)) garbled_address
       = Some (labeled_annotation garbled_address ''Broken'')"
    by (simp add: lookup_label_def sample_label_facts)
  with sample_keys_distinct p i garbled_fails show ?thesis by (intro conjI) simp_all
qed




end
